theory Spec2Isabelle
  imports Main "HOL-Library.Word"
begin

section \<open>The stream layer of kcp-go (stream.go)\<close>

text \<open>
  A shallow embedding of \<^verbatim>\<open>UDPStream\<close>: the struct is a record, every method is a
  function from the state before the call to its results and the state after it. A
  panic of the Go runtime (index or slice out of range, closing a closed channel) is
  the value \<open>Panic\<close>; a call that does not return is \<open>None\<close>.
\<close>

subsection \<open>Data\<close>

type_synonym byte = "8 word"

text \<open>A Go \<^verbatim>\<open>string\<close> is its sequence of bytes; \<^verbatim>\<open>string(data)\<close> and \<^verbatim>\<open>[]byte(s)\<close> keep them.\<close>

type_synonym gostring = "byte list"

text \<open>
  \<^verbatim>\<open>time.Time\<close> is the number of nanoseconds since the zero instant \<^verbatim>\<open>time.Time{}\<close>, so
  \<^verbatim>\<open>t.IsZero()\<close> is \<open>t = 0\<close>, \<^verbatim>\<open>t.After(u)\<close> is \<open>u < t\<close> and \<^verbatim>\<open>t.Add(d)\<close> is \<open>t + d\<close>.
\<close>

type_synonym time = int
type_synonym duration = int

datatype error =
    errTimeout | errTunnelPick | errStreamFlag | errSynInfo | errDialParam | errRemoteStream
  | ErrClosedPipe | ErrUnexpectedEOF | EOF
  | AddrError string

datatype 'a exec = Ok 'a | Panic

datatype UDPTunnel = UDPTunnel nat

datatype UDPAddr = UDPAddr (IP: "nat list") (Port: nat)

definition PSH :: byte where "PSH = 0x31"
definition SYN :: byte where "SYN = 0x32"
definition FIN :: byte where "FIN = 0x33"
definition HRT :: byte where "HRT = 0x34"
definition RST :: byte where "RST = 0x35"

definition uuid_Size :: nat where "uuid_Size = 16"

definition Second :: duration where "Second = 1000000000"
definition CleanTimeout :: duration where "CleanTimeout = Second * 5"
definition HeartbeatInterval :: duration where "HeartbeatInterval = Second * 30"
definition DefaultParallelXmit :: int where "DefaultParallelXmit = 5"
definition DefaultParallelTime :: duration where "DefaultParallelTime = Second * 60"

text \<open>
  The fields of \<^verbatim>\<open>KCP\<close> that stream.go reads or writes. The engine keeps the segments
  it has not sent (\<open>snd_queue\<close>), those it has sent and not seen acknowledged
  (\<open>snd_buf\<close>) and the messages it has assembled for the reader (\<open>rcv_queue\<close>).
\<close>

record KCP =
  snd_wnd :: "32 word"
  rmt_wnd :: "32 word"
  mss :: "32 word"
  state :: "32 word"
  snd_una :: "32 word"
  snd_queue :: "byte list list"
  snd_buf :: "byte list list"
  rcv_queue :: "byte list list"

record Message =
  Buffers :: "byte list list"
  Addr :: UDPAddr

record Snmp =
  BytesSent :: "64 word"
  BytesReceived :: "64 word"
  CurrEstab :: "64 word"
  MaxConn :: "64 word"

text \<open>
  \<^verbatim>\<open>UDPStream\<close>. A channel that is only ever closed (\<^verbatim>\<open>chClose\<close>, \<^verbatim>\<open>chRst\<close>,
  \<^verbatim>\<open>chSendFinEvent\<close>, \<^verbatim>\<open>chRecvFinEvent\<close>) is the boolean "has been closed"; a channel of
  capacity one (\<^verbatim>\<open>chDialEvent\<close>, \<^verbatim>\<open>chReadEvent\<close>, \<^verbatim>\<open>chWriteEvent\<close>) is the boolean "holds
  a value"; a \<^verbatim>\<open>sync.Once\<close> is the boolean "has run"; \<^verbatim>\<open>chClean\<close> is the instant at
  which its timer fires, when one is armed. \<open>recvbuf_cap\<close> is \<^verbatim>\<open>cap(s.recvbuf)\<close>.
  Three fields are not part of the struct and stand for the world around it: \<open>clock\<close>
  is what \<^verbatim>\<open>time.Now()\<close> returns, \<open>snmp\<close> is \<^verbatim>\<open>DefaultSnmp\<close>, and \<open>wire\<close> lists the
  batches handed to \<^verbatim>\<open>UDPTunnel.output\<close>, latest last.
\<close>

record UDPStream =
  uuid :: "byte list"
  kcp :: KCP
  tunnels :: "UDPTunnel list"
  remotes :: "UDPAddr list"
  accepted :: bool
  recvbuf :: "byte list"
  recvbuf_cap :: nat
  sendbuf :: "byte list"
  bufptr :: "byte list"
  chClean :: "time option"
  rd :: time
  wd :: time
  headerSize :: nat
  writeDelay :: bool
  recvSynOnce :: bool
  sendFinOnce :: bool
  chSendFinEvent :: bool
  recvFinOnce :: bool
  chRecvFinEvent :: bool
  rstOnce :: bool
  chRst :: bool
  closeOnce :: bool
  chClose :: bool
  chDialEvent :: bool
  chReadEvent :: bool
  chWriteEvent :: bool
  msgss :: "Message list list"
  parallelXmit :: "32 word"
  parallelTime :: duration
  parallelExpire :: time
  clock :: time
  snmp :: Snmp
  wire :: "(UDPTunnel \<times> Message list) list"

text \<open>
  What stream.go uses and does not define: the tunnel selector (\<^verbatim>\<open>s.sel.Pick\<close>), the
  resolver \<^verbatim>\<open>net.ResolveUDPAddr("udp", _)\<close>, the engine's \<^verbatim>\<open>flush\<close> (given the clock
  and the engine, it returns the engine after the flush, the \<^verbatim>\<open>(buf[:size], xmitMax)\<close>
  pairs it passed to its output callback, in order, and the interval), the constants
  \<^verbatim>\<open>IKCP_OVERHEAD\<close> and \<^verbatim>\<open>mtuLimit\<close>, and the buffer that \<^verbatim>\<open>xmitBuf.Get()\<close> hands out
  for the i-th copy of a segment (its length is its capacity, its bytes are whatever
  the pool held).
\<close>

record Deps =
  Pick :: "gostring list \<Rightarrow> UDPTunnel list"
  ResolveUDPAddr :: "gostring \<Rightarrow> error + UDPAddr"
  kcp_flush :: "time \<Rightarrow> KCP \<Rightarrow> KCP \<times> (byte list \<times> 32 word) list \<times> 32 word"
  IKCP_OVERHEAD :: nat
  mtuLimit :: nat
  xmitBuf_Get :: "nat \<Rightarrow> byte list"

subsection \<open>Slices\<close>

text \<open>
  \<^verbatim>\<open>copy(dst, src)\<close> overwrites the first \<open>min (len dst) (len src)\<close> bytes of \<open>dst\<close>
  and returns that number.
\<close>

definition copy :: "byte list \<Rightarrow> byte list \<Rightarrow> byte list" where
  "copy dst src = take (length dst) src @ drop (length src) dst"

definition copy_n :: "byte list \<Rightarrow> byte list \<Rightarrow> nat" where
  "copy_n dst src = min (length dst) (length src)"

subsection \<open>Construction\<close>

fun resolve_all :: "(gostring \<Rightarrow> error + UDPAddr) \<Rightarrow> gostring list \<Rightarrow> error + UDPAddr list" where
  "resolve_all r [] = Inr []"
| "resolve_all r (remote # rest) =
     (case r remote of
        Inl err \<Rightarrow> Inl err
      | Inr remoteAddr \<Rightarrow>
          (case resolve_all r rest of Inl err \<Rightarrow> Inl err | Inr as \<Rightarrow> Inr (remoteAddr # as)))"

text \<open>
  \<^verbatim>\<open>NewUDPStream\<close>. The engine \<open>k0\<close> is the one \<^verbatim>\<open>NewKCP\<close> and \<^verbatim>\<open>ReserveBytes\<close> return, the
  clock and the counters are those of the moment of the call.
\<close>

definition NewUDPStream ::
  "Deps \<Rightarrow> time \<Rightarrow> Snmp \<Rightarrow> KCP \<Rightarrow> byte list \<Rightarrow> bool \<Rightarrow> gostring list \<Rightarrow> error + UDPStream" where
  "NewUDPStream D t0 c0 k0 uu acc rems =
     (let tuns = Pick D rems in
      if length tuns = 0 \<or> length tuns \<noteq> length rems then Inl errTunnelPick
      else case resolve_all (ResolveUDPAddr D) rems of
        Inl err \<Rightarrow> Inl err
      | Inr remoteAddrs \<Rightarrow>
          (let currestab = CurrEstab c0 + 1 in
           Inr \<lparr> uuid = uu, kcp = k0, tunnels = tuns, remotes = remoteAddrs, accepted = acc,
                 recvbuf = replicate (mtuLimit D) 0, recvbuf_cap = mtuLimit D,
                 sendbuf = replicate (mtuLimit D) 0, bufptr = [],
                 chClean = None, rd = 0, wd = 0, headerSize = uuid_Size, writeDelay = False,
                 recvSynOnce = False, sendFinOnce = False, chSendFinEvent = False,
                 recvFinOnce = False, chRecvFinEvent = False, rstOnce = False, chRst = False,
                 closeOnce = False, chClose = False,
                 chDialEvent = False, chReadEvent = False, chWriteEvent = False,
                 msgss = [], parallelXmit = word_of_int DefaultParallelXmit,
                 parallelTime = DefaultParallelTime, parallelExpire = 0,
                 clock = t0,
                 snmp = c0\<lparr>CurrEstab := currestab,
                           MaxConn := (if MaxConn c0 < currestab then currestab else MaxConn c0)\<rparr>,
                 wire = [] \<rparr>))"

subsection \<open>The dispatcher\<close>

definition parallelTun :: "32 word \<Rightarrow> UDPStream \<Rightarrow> nat \<times> UDPStream" where
  "parallelTun xmitMax s =
     (if parallelXmit s \<le> xmitMax then
        (length (tunnels s), s\<lparr>parallelExpire := clock s + parallelTime s\<rparr>)
      else if parallelExpire s = 0 then (1, s)
      else if clock s < parallelExpire s then (length (tunnels s), s)
      else (1, s\<lparr>parallelExpire := 0\<rparr>))"

text \<open>
  One round of the second loop of \<^verbatim>\<open>output\<close>: the copy for tunnel \<open>i\<close>. The pool's buffer
  is cut to the segment's length, the UUID is copied to its start and the segment's
  bytes from offset 16 on behind it.
\<close>

definition output_copy :: "Deps \<Rightarrow> byte list \<Rightarrow> nat \<Rightarrow> UDPStream \<Rightarrow> UDPStream exec" where
  "output_copy D buf i s =
     (if length (xmitBuf_Get D i) < length buf then Panic
      else let bts = take (length buf) (xmitBuf_Get D i);
               bts = copy bts (uuid s)
      in if length bts < uuid_Size \<or> length buf < uuid_Size then Panic
      else let bts = take uuid_Size bts @ copy (drop uuid_Size bts) (drop uuid_Size buf)
      in if length (remotes s) \<le> i \<or> length (msgss s) \<le> i then Panic
      else let msg = \<lparr>Buffers = [bts], Addr = remotes s ! i\<rparr>
      in Ok (s\<lparr>msgss := (msgss s)[i := msgss s ! i @ [msg]]\<rparr>))"

function output_loop :: "Deps \<Rightarrow> byte list \<Rightarrow> nat \<Rightarrow> nat \<Rightarrow> UDPStream \<Rightarrow> UDPStream exec" where
  "output_loop D buf i appendCount s =
     (if i < appendCount then
        (case output_copy D buf i s of
           Panic \<Rightarrow> Panic
         | Ok s' \<Rightarrow> output_loop D buf (i + 1) appendCount s')
      else Ok s)"
  by pat_completeness auto
termination
  by (relation "measure (\<lambda>(D, buf, i, appendCount, s). appendCount - i)") auto

declare output_loop.simps [simp del]

definition output_msg :: "Deps \<Rightarrow> byte list \<Rightarrow> 32 word \<Rightarrow> UDPStream \<Rightarrow> UDPStream exec" where
  "output_msg D buf xmitMax s =
     (let (appendCount, s) = parallelTun xmitMax s;
          s = s\<lparr>msgss := msgss s @ replicate (appendCount - length (msgss s)) []\<rparr>
      in output_loop D buf 0 appendCount s)"

subsection \<open>The engine\<close>

text \<open>
  The methods of \<^verbatim>\<open>KCP\<close> that stream.go calls are defined in kcp.go, which is not among
  the sources; each is given here as the specification describes it.
\<close>

text \<open>
  Modelled from the spec: \<^verbatim>\<open>KCP.WaitSnd\<close> (kcp.go), the "current count of unacknowledged +
  unsent segments".
\<close>

definition WaitSnd :: "KCP \<Rightarrow> nat" where
  "WaitSnd k = length (snd_buf k) + length (snd_queue k)"

text \<open>
  Modelled from the spec: \<^verbatim>\<open>KCP.Send\<close> (kcp.go), which "enqueues a payload for sending".
  stream.go only passes it from 1 to \<open>mss\<close> bytes, which make one segment.
\<close>

definition Send :: "byte list \<Rightarrow> KCP \<Rightarrow> KCP" where
  "Send buffer k = k\<lparr>snd_queue := snd_queue k @ [buffer]\<rparr>"

text \<open>
  Modelled from the spec: \<^verbatim>\<open>KCP.PeekSize\<close> (kcp.go), "the size of the next fully assembled
  in-order message, or zero".
\<close>

definition PeekSize :: "KCP \<Rightarrow> nat" where
  "PeekSize k = (case rcv_queue k of [] \<Rightarrow> 0 | m # _ \<Rightarrow> length m)"

text \<open>
  Modelled from the spec: \<^verbatim>\<open>KCP.Recv\<close> (kcp.go), which "copies the next assembled message
  into out", and takes it off the queue; a buffer too short for the message is left alone.
\<close>

definition Recv :: "byte list \<Rightarrow> KCP \<Rightarrow> byte list \<times> KCP" where
  "Recv buffer k =
     (case rcv_queue k of
        [] \<Rightarrow> (buffer, k)
      | m # rest \<Rightarrow>
          if length buffer < length m then (buffer, k)
          else (copy buffer m, k\<lparr>rcv_queue := rest\<rparr>))"

text \<open>
  Modelled from the spec: \<^verbatim>\<open>KCP.ReleaseTX\<close> (kcp.go), which "returns all buffers to their
  pool": the engine is left with nothing queued and nothing in flight.
\<close>

definition ReleaseTX :: "KCP \<Rightarrow> KCP" where
  "ReleaseTX k = k\<lparr>snd_queue := [], snd_buf := []\<rparr>"

subsection \<open>Events and \<^verbatim>\<open>select\<close>\<close>

text \<open>A send on a full channel of capacity one takes the \<^verbatim>\<open>default\<close> branch.\<close>

definition notifyDialEvent :: "UDPStream \<Rightarrow> UDPStream" where
  "notifyDialEvent s = (if chDialEvent s then s else s\<lparr>chDialEvent := True\<rparr>)"

definition notifyReadEvent :: "UDPStream \<Rightarrow> UDPStream" where
  "notifyReadEvent s = (if chReadEvent s then s else s\<lparr>chReadEvent := True\<rparr>)"

definition notifyWriteEvent :: "UDPStream \<Rightarrow> UDPStream" where
  "notifyWriteEvent s = (if chWriteEvent s then s else s\<lparr>chWriteEvent := True\<rparr>)"

text \<open>
  A \<^verbatim>\<open>select\<close> runs one of the cases that can proceed, and the runtime chooses which:
  \<open>ready\<close> lists them in the order of the source and \<open>chosen c\<close> is the runtime's
  choice, for a number \<open>c\<close> that the caller of the model supplies.
\<close>

definition ready :: "(bool \<times> 'a) list \<Rightarrow> 'a list" where
  "ready cases = map snd (filter fst cases)"

definition chosen :: "nat \<Rightarrow> 'a list \<Rightarrow> 'a" where
  "chosen c rs = rs ! (c mod length rs)"

text \<open>
  A goroutine that waits in a \<^verbatim>\<open>select\<close> without \<^verbatim>\<open>default\<close> is woken by the others. A
  \<open>wakeup\<close> is what they did to the stream and to the clock in the meantime, and the
  runtime's choice among the cases that can then proceed; when none can, the goroutine
  waits for the next wakeup, and when no wakeup is left the call has not returned.
\<close>

datatype wakeup = Wakeup (world: "UDPStream \<Rightarrow> UDPStream") (choice: nat)

datatype wake = WClose | WRst | WFin | WEvent | WTimer

definition timer_fired :: "time option \<Rightarrow> UDPStream \<Rightarrow> bool" where
  "timer_fired timeout s = (case timeout of None \<Rightarrow> False | Some t \<Rightarrow> t \<le> clock s)"

subsection \<open>Flush\<close>

text \<open>The callback that \<^verbatim>\<open>NewUDPStream\<close> gives to the engine.\<close>

definition kcp_output :: "Deps \<Rightarrow> byte list \<times> 32 word \<Rightarrow> UDPStream \<Rightarrow> UDPStream exec" where
  "kcp_output D seg s =
     (case seg of (buf, xmitMax) \<Rightarrow>
        if IKCP_OVERHEAD D + headerSize s \<le> length buf then output_msg D buf xmitMax s
        else Ok s)"

fun kcp_outputs :: "Deps \<Rightarrow> (byte list \<times> 32 word) list \<Rightarrow> UDPStream \<Rightarrow> UDPStream exec" where
  "kcp_outputs D [] s = Ok s"
| "kcp_outputs D (seg # segs) s =
     (case kcp_output D seg s of Panic \<Rightarrow> Panic | Ok s' \<Rightarrow> kcp_outputs D segs s')"

text \<open>The last loop of \<^verbatim>\<open>flush\<close>, over the batches taken out of \<^verbatim>\<open>s.msgss\<close>.\<close>

fun tunnels_output :: "nat \<Rightarrow> Message list list \<Rightarrow> UDPStream \<Rightarrow> UDPStream exec" where
  "tunnels_output i [] s = Ok s"
| "tunnels_output i (msgs # rest) s =
     (if 0 < length msgs then
        (if length (tunnels s) \<le> i then Panic
         else tunnels_output (i + 1) rest (s\<lparr>wire := wire s @ [(tunnels s ! i, msgs)]\<rparr>))
      else tunnels_output (i + 1) rest s)"

definition flush :: "Deps \<Rightarrow> bool \<Rightarrow> UDPStream \<Rightarrow> (32 word \<times> UDPStream) exec" where
  "flush D kcpFlush s =
     (case (if kcpFlush then
              (case kcp_flush D (clock s) (kcp s) of (k, segs, interval) \<Rightarrow>
                 (case kcp_outputs D segs (s\<lparr>kcp := k\<rparr>) of
                    Panic \<Rightarrow> Panic | Ok s' \<Rightarrow> Ok (interval, s')))
            else Ok (0, s)) of
        Panic \<Rightarrow> Panic
      | Ok (interval, s) \<Rightarrow>
          (let waitsnd = WaitSnd (kcp s);
               notifyWrite = (waitsnd < unat (snd_wnd (kcp s)) \<and> waitsnd < unat (rmt_wnd (kcp s)))
           in if length (msgss s) = 0 then
                Ok (interval, if notifyWrite then notifyWriteEvent s else s)
              else
                (let batches = msgss s;
                     s = s\<lparr>msgss := []\<rparr>;
                     s = (if notifyWrite then notifyWriteEvent s else s)
                 in case tunnels_output 0 batches s of
                      Panic \<Rightarrow> Panic | Ok s' \<Rightarrow> Ok (interval, s'))))"

subsection \<open>Write\<close>

text \<open>
  The inner loop of \<^verbatim>\<open>WriteBuffer\<close>, on the engine, \<^verbatim>\<open>s.sendbuf\<close> and what is left of
  \<open>b\<close>. \<^verbatim>\<open>s.kcp.mss-1\<close> is computed in \<^verbatim>\<open>uint32\<close>. The capacity of \<open>b\<close> is taken to be its
  length. With \<open>mss = 1\<close> the loop never ends.
\<close>

partial_function (option) send_loop ::
  "byte \<Rightarrow> KCP \<Rightarrow> byte list \<Rightarrow> byte list \<Rightarrow> (KCP \<times> byte list \<times> byte list) exec option" where
  "send_loop flag k sb b =
     (if length b < unat (mss k) then
        (if length sb < length b + 1 then Some Panic
         else let sb = sb[0 := flag];
                  sb = take 1 sb @ copy (drop 1 sb) b
         in Some (Ok (Send (take (length b + 1) sb) k, sb, b)))
      else
        (if length sb = 0 \<or> length b < unat (mss k - 1) \<or> length sb < unat (mss k) then Some Panic
         else let sb = sb[0 := flag];
                  sb = take 1 sb @ copy (drop 1 sb) (take (unat (mss k - 1)) b)
         in send_loop flag (Send (take (unat (mss k)) sb) k) sb (drop (unat (mss k - 1)) b)))"

declare send_loop.simps [code]

text \<open>
  \<^verbatim>\<open>WriteBuffer\<close> from its \<^verbatim>\<open>for\<close> loop on (\<open>WriteBuffer_loop\<close>, one round up to the
  \<^verbatim>\<open>select\<close>) and the \<^verbatim>\<open>select\<close> in which it waits (\<open>WriteBuffer_wait\<close>). The timer of
  the round fires at \<^verbatim>\<open>time.Now()\<close> plus \<^verbatim>\<open>s.wd.Sub(time.Now())\<close>.
\<close>

function WriteBuffer_loop ::
    "Deps \<Rightarrow> byte \<Rightarrow> byte list \<Rightarrow> UDPStream \<Rightarrow> wakeup list
       \<Rightarrow> ((nat \<times> error option) \<times> UDPStream) exec option"
  and WriteBuffer_wait ::
    "Deps \<Rightarrow> byte \<Rightarrow> byte list \<Rightarrow> UDPStream \<Rightarrow> time option \<Rightarrow> wakeup list
       \<Rightarrow> ((nat \<times> error option) \<times> UDPStream) exec option" where
  "WriteBuffer_loop D flag b s ws =
     (let waitsnd = WaitSnd (kcp s) in
      if waitsnd < unat (snd_wnd (kcp s)) \<and> waitsnd < unat (rmt_wnd (kcp s)) then
        (case send_loop flag (kcp s) (sendbuf s) b of
           None \<Rightarrow> None
         | Some Panic \<Rightarrow> Some Panic
         | Some (Ok (k, sb, b)) \<Rightarrow>
             (let s = s\<lparr>kcp := k, sendbuf := sb\<rparr>;
                  waitsnd = WaitSnd (kcp s);
                  needFlush = (unat (snd_wnd (kcp s)) \<le> waitsnd \<or> unat (rmt_wnd (kcp s)) \<le> waitsnd
                               \<or> \<not> writeDelay s)
              in case (if needFlush then flush D True s else Ok (0, s)) of
                   Panic \<Rightarrow> Some Panic
                 | Ok (interval, s) \<Rightarrow>
                     Some (Ok ((length b, None),
                       s\<lparr>snmp := (snmp s)\<lparr>BytesSent := BytesSent (snmp s) + of_nat (length b)\<rparr>\<rparr>))))
      else if wd s \<noteq> 0 \<and> wd s < clock s then Some (Ok ((0, Some errTimeout), s))
      else WriteBuffer_wait D flag b s
             (if wd s \<noteq> 0 then Some (clock s + (wd s - clock s)) else None) ws)"
| "WriteBuffer_wait D flag b s timeout [] = None"
| "WriteBuffer_wait D flag b s timeout (w # ws) =
     (let s = world w s in
      case ready [(chClose s, WClose), (chRst s, WRst), (chSendFinEvent s, WFin),
                  (chWriteEvent s, WEvent), (timer_fired timeout s, WTimer)] of
        [] \<Rightarrow> WriteBuffer_wait D flag b s timeout ws
      | r # rs \<Rightarrow>
          (case chosen (choice w) (r # rs) of
             WClose \<Rightarrow> Some (Ok ((0, Some ErrClosedPipe), s))
           | WRst \<Rightarrow> Some (Ok ((0, Some ErrUnexpectedEOF), s))
           | WFin \<Rightarrow> Some (Ok ((0, Some EOF), s))
           | WEvent \<Rightarrow> WriteBuffer_loop D flag b (s\<lparr>chWriteEvent := False\<rparr>) ws
           | WTimer \<Rightarrow> Some (Ok ((0, Some errTimeout), s))))"
  by pat_completeness auto
termination
  by (relation "measure (\<lambda>x. case x of
        Inl (D, flag, b, s, ws) \<Rightarrow> 2 * length ws + 1
      | Inr (D, flag, b, s, timeout, ws) \<Rightarrow> 2 * length ws)") auto

declare WriteBuffer_loop.simps [simp del]

text \<open>
  \<^verbatim>\<open>WriteBuffer\<close>: \<open>c\<close> is the runtime's choice in the first \<^verbatim>\<open>select\<close>, \<open>ws\<close> are the
  wakeups of the call.
\<close>

definition WriteBuffer ::
  "Deps \<Rightarrow> nat \<Rightarrow> wakeup list \<Rightarrow> byte \<Rightarrow> byte list \<Rightarrow> UDPStream
     \<Rightarrow> ((nat \<times> error option) \<times> UDPStream) exec option" where
  "WriteBuffer D c ws flag b s =
     (case ready [(chClose s, ErrClosedPipe), (chRst s, ErrUnexpectedEOF),
                  (chSendFinEvent s, ErrClosedPipe)] of
        [] \<Rightarrow> WriteBuffer_loop D flag b s ws
      | r # rs \<Rightarrow> Some (Ok ((0, Some (chosen c (r # rs))), s)))"

definition Write ::
  "Deps \<Rightarrow> nat \<Rightarrow> wakeup list \<Rightarrow> byte list \<Rightarrow> UDPStream
     \<Rightarrow> ((nat \<times> error option) \<times> UDPStream) exec option" where
  "Write D c ws b s = WriteBuffer D c ws PSH b s"

definition WriteFlag ::
  "Deps \<Rightarrow> nat \<Rightarrow> wakeup list \<Rightarrow> byte \<Rightarrow> byte list \<Rightarrow> UDPStream
     \<Rightarrow> ((nat \<times> error option) \<times> UDPStream) exec option" where
  "WriteFlag D c ws flag b s = WriteBuffer D c ws flag b s"

subsection \<open>Dial\<close>

text \<open>\<^verbatim>\<open>strings.Join(locals, " ")\<close>.\<close>

fun Join :: "gostring list \<Rightarrow> gostring \<Rightarrow> gostring" where
  "Join [] sep = []"
| "Join [a] sep = a"
| "Join (a # b # rest) sep = a @ sep @ Join (b # rest) sep"

function Dial_wait ::
  "UDPStream \<Rightarrow> time \<Rightarrow> wakeup list \<Rightarrow> (error option \<times> UDPStream) exec option" where
  "Dial_wait s dialTimer [] = None"
| "Dial_wait s dialTimer (w # ws) =
     (let s = world w s in
      case ready [(chClose s, WClose), (chRst s, WRst), (chRecvFinEvent s, WFin),
                  (chDialEvent s, WEvent), (dialTimer \<le> clock s, WTimer)] of
        [] \<Rightarrow> Dial_wait s dialTimer ws
      | r # rs \<Rightarrow>
          (case chosen (choice w) (r # rs) of
             WClose \<Rightarrow> Some (Ok (Some ErrClosedPipe, s))
           | WRst \<Rightarrow> Some (Ok (Some ErrUnexpectedEOF, s))
           | WFin \<Rightarrow> Some (Ok (Some EOF, s))
           | WEvent \<Rightarrow> Some (Ok (None, s\<lparr>chDialEvent := False\<rparr>))
           | WTimer \<Rightarrow> Some (Ok (Some errTimeout, s))))"
  by pat_completeness auto
termination
  by (relation "measure (\<lambda>(s, dialTimer, ws). length ws)") auto

text \<open>
  \<^verbatim>\<open>Dial\<close>: \<open>c\<close> and \<open>ws\<close> are the choice and the wakeups of its \<^verbatim>\<open>WriteFlag\<close>, \<open>ws'\<close> the
  wakeups of its own \<^verbatim>\<open>select\<close>.
\<close>

definition Dial ::
  "Deps \<Rightarrow> nat \<Rightarrow> wakeup list \<Rightarrow> wakeup list \<Rightarrow> gostring list \<Rightarrow> duration \<Rightarrow> UDPStream
     \<Rightarrow> (error option \<times> UDPStream) exec option" where
  "Dial D c ws ws' locals timeout s =
     (if accepted s then Some (Ok (None, s))
      else if length locals = 0 then Some (Ok (Some errDialParam, s))
      else case WriteFlag D c ws SYN (Join locals [0x20]) s of
        None \<Rightarrow> None
      | Some Panic \<Rightarrow> Some Panic
      | Some (Ok (r, s)) \<Rightarrow>
          (case flush D True s of
             Panic \<Rightarrow> Some Panic
           | Ok (interval, s) \<Rightarrow> Dial_wait s (clock s + timeout) ws'))"

subsection \<open>Close, CloseWrite, reset\<close>

text \<open>\<^verbatim>\<open>close\<close> of a channel that is closed panics.\<close>

definition Close ::
  "Deps \<Rightarrow> nat \<Rightarrow> wakeup list \<Rightarrow> UDPStream \<Rightarrow> (error option \<times> UDPStream) exec option" where
  "Close D c ws s =
     (let once = \<not> closeOnce s;
          s = s\<lparr>closeOnce := True\<rparr>
      in if \<not> once then Some (Ok (Some ErrClosedPipe, s))
      else case WriteFlag D c ws RST [] s of
        None \<Rightarrow> None
      | Some Panic \<Rightarrow> Some Panic
      | Some (Ok (r, s)) \<Rightarrow>
          if chClose s then Some Panic
          else Some (Ok (None,
                 s\<lparr>chClose := True, chClean := Some (clock s + CleanTimeout),
                   snmp := (snmp s)\<lparr>CurrEstab := CurrEstab (snmp s) + (- 1)\<rparr>\<rparr>)))"

definition CloseWrite ::
  "Deps \<Rightarrow> nat \<Rightarrow> wakeup list \<Rightarrow> UDPStream \<Rightarrow> (error option \<times> UDPStream) exec option" where
  "CloseWrite D c ws s =
     (let once = \<not> sendFinOnce s;
          s = s\<lparr>sendFinOnce := True\<rparr>
      in if \<not> once then Some (Ok (None, s))
      else case WriteFlag D c ws FIN [] s of
        None \<Rightarrow> None
      | Some Panic \<Rightarrow> Some Panic
      | Some (Ok (r, s)) \<Rightarrow>
          if chSendFinEvent s then Some Panic
          else Some (Ok (None, s\<lparr>chSendFinEvent := True\<rparr>)))"

definition reset :: "UDPStream \<Rightarrow> UDPStream exec" where
  "reset s =
     (let once = \<not> rstOnce s;
          s = s\<lparr>rstOnce := True\<rparr>
      in if \<not> once then Ok s
      else if chRst s then Panic
      else Ok (s\<lparr>chRst := True, kcp := ReleaseTX (kcp s)\<rparr>))"

subsection \<open>The commands read\<close>

text \<open>
  Each takes the payload \<open>data\<close> and, for \<^verbatim>\<open>recvPsh\<close>, the reader's buffer \<open>b\<close>; each
  returns \<open>n\<close>, the error, the reader's buffer and the stream.
\<close>

type_synonym cmd_result = "((nat \<times> error option) \<times> byte list \<times> UDPStream) exec"

definition recvPsh :: "byte list \<Rightarrow> byte list \<Rightarrow> UDPStream \<Rightarrow> cmd_result" where
  "recvPsh data b s = Ok ((copy_n b data, None), copy b data, s)"

text \<open>\<^verbatim>\<open>strings.Split(endpointInfo, " ")\<close>: the pieces between the spaces, one more than there are spaces.\<close>

fun Split_space :: "gostring \<Rightarrow> gostring list" where
  "Split_space [] = [[]]"
| "Split_space (c # cs) =
     (if c = 0x20 then [] # Split_space cs
      else case Split_space cs of [] \<Rightarrow> [[c]] | p # ps \<Rightarrow> (c # p) # ps)"

definition recvSyn :: "Deps \<Rightarrow> byte list \<Rightarrow> UDPStream \<Rightarrow> (nat \<times> error option) \<times> UDPStream" where
  "recvSyn D data s =
     (let once = \<not> recvSynOnce s;
          s = s\<lparr>recvSynOnce := True\<rparr>
      in if \<not> once then ((length data, None), s)
      else let endpointInfo = data;
               rems = Split_space endpointInfo
      in if length rems = 0 then ((length data, Some errSynInfo), s)
      else let tuns = Pick D rems
      in if length tuns = 0 \<or> length tuns \<noteq> length rems then ((length data, Some errSynInfo), s)
      else case resolve_all (ResolveUDPAddr D) rems of
        Inl err \<Rightarrow> ((length data, Some err), s)
      | Inr remoteAddrs \<Rightarrow> ((length data, None), s\<lparr>tunnels := tuns, remotes := remoteAddrs\<rparr>))"

definition recvFin :: "byte list \<Rightarrow> UDPStream \<Rightarrow> ((nat \<times> error option) \<times> UDPStream) exec" where
  "recvFin data s =
     (if recvFinOnce s then Ok ((length data, Some EOF), s)
      else if chRecvFinEvent s then Panic
      else Ok ((length data, Some EOF), s\<lparr>recvFinOnce := True, chRecvFinEvent := True\<rparr>))"

definition recvHrt :: "byte list \<Rightarrow> UDPStream \<Rightarrow> (nat \<times> error option) \<times> UDPStream" where
  "recvHrt data s = ((length data, None), s)"

definition recvRst :: "byte list \<Rightarrow> UDPStream \<Rightarrow> ((nat \<times> error option) \<times> UDPStream) exec" where
  "recvRst data s =
     (case reset s of Panic \<Rightarrow> Panic | Ok s' \<Rightarrow> Ok ((length data, Some ErrUnexpectedEOF), s'))"

definition cmdRead :: "Deps \<Rightarrow> byte \<Rightarrow> byte list \<Rightarrow> byte list \<Rightarrow> UDPStream \<Rightarrow> cmd_result" where
  "cmdRead D flag data b s =
     (if flag = PSH then recvPsh data b s
      else if flag = SYN then (case recvSyn D data s of (r, s') \<Rightarrow> Ok (r, b, s'))
      else if flag = FIN then (case recvFin data s of Panic \<Rightarrow> Panic | Ok (r, s') \<Rightarrow> Ok (r, b, s'))
      else if flag = HRT then (case recvHrt data s of (r, s') \<Rightarrow> Ok (r, b, s'))
      else if flag = RST then (case recvRst data s of Panic \<Rightarrow> Panic | Ok (r, s') \<Rightarrow> Ok (r, b, s'))
      else Ok ((0, Some errStreamFlag), b, s))"

subsection \<open>Read and Accept\<close>

text \<open>
  \<^verbatim>\<open>Read\<close>, like \<^verbatim>\<open>WriteBuffer\<close>, is its loop (\<open>Read_loop\<close>) and the \<^verbatim>\<open>select\<close> it waits in
  (\<open>Read_wait\<close>). A \<^verbatim>\<open>recvbuf\<close> cut to a greater length shows the bytes its array held,
  which \<^verbatim>\<open>Recv\<close> then overwrites; they are zero here. \<open>bufptr\<close> is kept as the bytes it
  holds.
\<close>

function Read_loop ::
    "Deps \<Rightarrow> byte list \<Rightarrow> UDPStream \<Rightarrow> wakeup list \<Rightarrow> cmd_result option"
  and Read_wait ::
    "Deps \<Rightarrow> byte list \<Rightarrow> UDPStream \<Rightarrow> time option \<Rightarrow> wakeup list \<Rightarrow> cmd_result option" where
  "Read_loop D b s ws =
     (if 0 < length (bufptr s) then
        (let n = copy_n b (bufptr s);
             b' = copy b (bufptr s);
             s = s\<lparr>bufptr := drop n (bufptr s)\<rparr>
         in Some (Ok ((n, None), b',
              s\<lparr>snmp := (snmp s)\<lparr>BytesReceived := BytesReceived (snmp s) + of_nat n\<rparr>\<rparr>)))
      else let size = PeekSize (kcp s) in
      if 0 < size then
        (let s = (if recvbuf_cap s < size
                  then s\<lparr>recvbuf := replicate size 0, recvbuf_cap := size\<rparr> else s);
             s = s\<lparr>recvbuf := take size (recvbuf s @ replicate (size - length (recvbuf s)) 0)\<rparr>
         in case Recv (recvbuf s) (kcp s) of (rb, k) \<Rightarrow>
           (let s = s\<lparr>recvbuf := rb, kcp := k\<rparr>;
                flag = recvbuf s ! 0
            in case cmdRead D flag (drop 1 (recvbuf s)) b s of
                 Panic \<Rightarrow> Some Panic
               | Ok ((n, err), b', s) \<Rightarrow>
                   (if length (recvbuf s) < n + 1 then Some Panic
                    else let s = s\<lparr>bufptr := drop (n + 1) (recvbuf s)\<rparr>;
                             s = s\<lparr>snmp := (snmp s)\<lparr>BytesReceived :=
                                        BytesReceived (snmp s) + of_nat (n + 1)\<rparr>\<rparr>;
                             n = (if flag \<noteq> PSH then 0 else n)
                    in Some (Ok ((n, err), b', s)))))
      else if rd s \<noteq> 0 \<and> rd s < clock s then Some (Ok ((0, Some errTimeout), b, s))
      else Read_wait D b s (if rd s \<noteq> 0 then Some (clock s + (rd s - clock s)) else None) ws)"
| "Read_wait D b s timeout [] = None"
| "Read_wait D b s timeout (w # ws) =
     (let s = world w s in
      case ready [(chClose s, WClose), (chRst s, WRst), (chRecvFinEvent s, WFin),
                  (chReadEvent s, WEvent), (timer_fired timeout s, WTimer)] of
        [] \<Rightarrow> Read_wait D b s timeout ws
      | r # rs \<Rightarrow>
          (case chosen (choice w) (r # rs) of
             WClose \<Rightarrow> Some (Ok ((0, Some ErrClosedPipe), b, s))
           | WRst \<Rightarrow> Some (Ok ((0, Some ErrUnexpectedEOF), b, s))
           | WFin \<Rightarrow> Some (Ok ((0, Some EOF), b, s))
           | WEvent \<Rightarrow> Read_loop D b (s\<lparr>chReadEvent := False\<rparr>) ws
           | WTimer \<Rightarrow> Some (Ok ((0, Some errTimeout), b, s))))"
  by pat_completeness auto
termination
  by (relation "measure (\<lambda>x. case x of
        Inl (D, b, s, ws) \<Rightarrow> 2 * length ws + 1
      | Inr (D, b, s, timeout, ws) \<Rightarrow> 2 * length ws)") auto

declare Read_loop.simps [simp del]

definition Read :: "Deps \<Rightarrow> nat \<Rightarrow> wakeup list \<Rightarrow> byte list \<Rightarrow> UDPStream \<Rightarrow> cmd_result option" where
  "Read D c ws b s =
     (case ready [(chClose s, ErrClosedPipe), (chRst s, ErrUnexpectedEOF),
                  (chRecvFinEvent s, EOF)] of
        [] \<Rightarrow> Read_loop D b s ws
      | r # rs \<Rightarrow> Some (Ok ((0, Some (chosen c (r # rs))), b, s)))"

definition Accept :: "Deps \<Rightarrow> nat \<Rightarrow> UDPStream \<Rightarrow> (error option \<times> UDPStream) exec" where
  "Accept D c s =
     (case ready [(chClose s, ErrClosedPipe), (chRst s, ErrUnexpectedEOF),
                  (chRecvFinEvent s, EOF)] of
        r # rs \<Rightarrow> Ok (Some (chosen c (r # rs)), s)
      | [] \<Rightarrow>
          (let size = PeekSize (kcp s) in
           if size \<le> 0 then Ok (Some errRemoteStream, s)
           else if recvbuf_cap s < size then Panic
           else let s = s\<lparr>recvbuf := take size (recvbuf s @ replicate (size - length (recvbuf s)) 0)\<rparr>
           in case Recv (recvbuf s) (kcp s) of (rb, k) \<Rightarrow>
             (let s = s\<lparr>recvbuf := rb, kcp := k\<rparr>;
                  flag = recvbuf s ! 0
              in if flag \<noteq> SYN then Ok (Some errRemoteStream, s)
                 else case recvSyn D (drop 1 (recvbuf s)) s of ((n, err), s') \<Rightarrow> Ok (err, s'))))"

subsection \<open>Calls in a row\<close>

text \<open>
  The SYN payloads \<open>ds\<close> handed to \<^verbatim>\<open>recvSyn\<close> one after the other, and a method called
  again and again, each call with its own choice and wakeups.
\<close>

fun recvSyns ::
  "Deps \<Rightarrow> byte list list \<Rightarrow> UDPStream \<Rightarrow> (nat \<times> error option) list \<times> UDPStream" where
  "recvSyns D [] s = ([], s)"
| "recvSyns D (d # ds) s =
     (case recvSyn D d s of (r, s') \<Rightarrow>
        (case recvSyns D ds s' of (rs, s'') \<Rightarrow> (r # rs, s'')))"

fun calls ::
  "(nat \<Rightarrow> wakeup list \<Rightarrow> UDPStream \<Rightarrow> (error option \<times> UDPStream) exec option)
     \<Rightarrow> (nat \<times> wakeup list) list \<Rightarrow> UDPStream \<Rightarrow> (error option list \<times> UDPStream) exec option" where
  "calls f [] s = Some (Ok ([], s))"
| "calls f ((c, ws) # rest) s =
     (case f c ws s of
        None \<Rightarrow> None
      | Some Panic \<Rightarrow> Some Panic
      | Some (Ok (r, s')) \<Rightarrow>
          (case calls f rest s' of
             None \<Rightarrow> None
           | Some Panic \<Rightarrow> Some Panic
           | Some (Ok (rs, s'')) \<Rightarrow> Some (Ok (r # rs, s''))))"

text \<open>
  The fields that a write, with the flush it may run, assigns: \<open>write_frame s s'\<close> says
  that \<open>s'\<close> is \<open>s\<close> but for them.
\<close>

definition write_frame :: "UDPStream \<Rightarrow> UDPStream \<Rightarrow> bool" where
  "write_frame s s' \<longleftrightarrow>
     s' = s\<lparr>kcp := kcp s', sendbuf := sendbuf s', msgss := msgss s',
            parallelExpire := parallelExpire s', chWriteEvent := chWriteEvent s',
            wire := wire s', snmp := snmp s'\<rparr>"

text \<open>
  What \<^verbatim>\<open>NewUDPStream\<close> and \<^verbatim>\<open>recvSyn\<close> establish and the dispatcher relies on: a UUID of
  16 bytes, kept free at the head of every segment, as many remotes as tunnels and at
  least one, and no more queues than tunnels. \<open>flush_fits\<close> says of the engine that no
  segment it emits is longer than a buffer of the pool.
\<close>

definition wf_stream :: "UDPStream \<Rightarrow> bool" where
  "wf_stream s \<longleftrightarrow>
     length (uuid s) = uuid_Size \<and> headerSize s = uuid_Size \<and> tunnels s \<noteq> []
     \<and> length (remotes s) = length (tunnels s) \<and> length (msgss s) \<le> length (tunnels s)"

definition flush_fits :: "Deps \<Rightarrow> bool" where
  "flush_fits D \<longleftrightarrow>
     (\<forall>t k i. \<forall>seg \<in> set (fst (snd (kcp_flush D t k))). length (fst seg) \<le> length (xmitBuf_Get D i))"

subsection \<open>A stream to compute with\<close>

text \<open>
  An active stream over two tunnels, as \<^verbatim>\<open>NewUDPStream\<close> builds it: a selector that
  gives every endpoint the tunnel 7, a resolver that knows two endpoints and, as Go's
  does, resolves the empty string to the empty address, an engine with \<open>mss = 8\<close> whose
  flush sends all it has queued under a header of 40 bytes, and buffers of 48 bytes.
\<close>

definition example_uuid :: "byte list" where
  "example_uuid = [1, 2, 3, 4, 5, 6, 7, 8, 9, 10, 11, 12, 13, 14, 15, 16]"

definition endpoint1 :: gostring where
  "endpoint1 = map of_char ''10.0.0.1:7001''"

definition endpoint2 :: gostring where
  "endpoint2 = map of_char ''10.0.0.2:7001''"

definition example_resolve :: "gostring \<Rightarrow> error + UDPAddr" where
  "example_resolve a =
     (if a = [] then Inr (UDPAddr [] 0)
      else if a = endpoint1 then Inr (UDPAddr [10, 0, 0, 1] 7001)
      else if a = endpoint2 then Inr (UDPAddr [10, 0, 0, 2] 7001)
      else Inl (AddrError ''missing port in address''))"

definition example_flush :: "time \<Rightarrow> KCP \<Rightarrow> KCP \<times> (byte list \<times> 32 word) list \<times> 32 word" where
  "example_flush t k =
     (k\<lparr>snd_buf := snd_buf k @ snd_queue k, snd_queue := []\<rparr>,
      map (\<lambda>seg. (replicate 40 0 @ seg, 1)) (snd_queue k),
      10)"

definition example_deps :: Deps where
  "example_deps =
     \<lparr> Pick = map (\<lambda>remote. UDPTunnel 7), ResolveUDPAddr = example_resolve,
       kcp_flush = example_flush, IKCP_OVERHEAD = 24, mtuLimit = 48,
       xmitBuf_Get = (\<lambda>i. replicate 48 255) \<rparr>"

definition example_kcp :: KCP where
  "example_kcp =
     \<lparr> snd_wnd = 32, rmt_wnd = 32, mss = 8, state = 0, snd_una = 0,
       snd_queue = [], snd_buf = [], rcv_queue = [] \<rparr>"

definition example_snmp :: Snmp where
  "example_snmp = \<lparr> BytesSent = 0, BytesReceived = 0, CurrEstab = 1, MaxConn = 1 \<rparr>"

definition example_stream :: UDPStream where
  "example_stream =
     \<lparr> uuid = example_uuid, kcp = example_kcp, tunnels = [UDPTunnel 7, UDPTunnel 7],
       remotes = [UDPAddr [10, 0, 0, 1] 7001, UDPAddr [10, 0, 0, 2] 7001], accepted = False,
       recvbuf = replicate 48 0, recvbuf_cap = 48, sendbuf = replicate 48 0, bufptr = [],
       chClean = None, rd = 0, wd = 0, headerSize = 16, writeDelay = False,
       recvSynOnce = False, sendFinOnce = False, chSendFinEvent = False,
       recvFinOnce = False, chRecvFinEvent = False, rstOnce = False, chRst = False,
       closeOnce = False, chClose = False,
       chDialEvent = False, chReadEvent = False, chWriteEvent = False,
       msgss = [], parallelXmit = 5, parallelTime = 60000000000, parallelExpire = 0,
       clock = 1000, snmp = example_snmp, wire = [] \<rparr>"

text \<open>A segment as the engine emits it: 16 bytes kept free, 24 of header, the tag and two bytes.\<close>

definition example_segment :: "byte list" where
  "example_segment = replicate 16 0 @ replicate 24 17 @ [0x31, 0x68, 0x69]"

text \<open>
  The same stream when the engine holds, assembled, a message whose tag is the character 9,
  and has one segment of its own in flight; and the stream once \<^verbatim>\<open>Read\<close> has returned.
\<close>

definition example_bad_tag :: UDPStream where
  "example_bad_tag =
     example_stream\<lparr>kcp := example_kcp\<lparr>rcv_queue := [[0x39, 0x41]], snd_buf := [[0x31, 0x61]]\<rparr>\<rparr>"

definition example_bad_tag_read :: UDPStream where
  "example_bad_tag_read =
     example_stream\<lparr>kcp := example_kcp\<lparr>rcv_queue := [], snd_buf := [[0x31, 0x61]]\<rparr>,
       recvbuf := [0x39, 0x41], bufptr := [0x41],
       snmp := example_snmp\<lparr>BytesReceived := 1\<rparr>\<rparr>"

text \<open>
  The same stream with a send window of one segment and one segment in flight, so that a
  writer has to wait. \<open>other_CloseWrite\<close> is what happens to it while the writer waits:
  the peer acknowledges the segment, for which \<^verbatim>\<open>input\<close> empties \<^verbatim>\<open>snd_buf\<close> and its flush
  notifies the write event, and another goroutine calls \<^verbatim>\<open>CloseWrite\<close>, whose FIN fills the
  window again.
\<close>

definition example_window_full :: UDPStream where
  "example_window_full =
     example_stream\<lparr>kcp := example_kcp\<lparr>snd_wnd := 1, snd_buf := [[0x31, 0x78]]\<rparr>\<rparr>"

definition acked :: "UDPStream \<Rightarrow> UDPStream" where
  "acked s = notifyWriteEvent (s\<lparr>kcp := (kcp s)\<lparr>snd_buf := []\<rparr>\<rparr>)"

definition other_CloseWrite :: "UDPStream \<Rightarrow> UDPStream" where
  "other_CloseWrite s =
     (case CloseWrite example_deps 0 [] (acked s) of Some (Ok (r, s')) \<Rightarrow> s' | _ \<Rightarrow> s)"

definition example_window_full_closed :: UDPStream where
  "example_window_full_closed =
     example_stream\<lparr>
       kcp := example_kcp\<lparr>snd_wnd := 1, snd_buf := [[0x33]]\<rparr>,
       sendbuf := 0x33 # replicate 47 0,
       sendFinOnce := True, chSendFinEvent := True, chWriteEvent := True,
       wire := [(UDPTunnel 7,
         [\<lparr>Buffers = [example_uuid @ replicate 24 0 @ [0x33]],
            Addr = UDPAddr [10, 0, 0, 1] 7001\<rparr>])]\<rparr>"

text \<open>Ten bytes to write, and the stream once \<^verbatim>\<open>Write\<close> has returned from writing them.\<close>

definition example_data :: "byte list" where
  "example_data = [0x61, 0x62, 0x63, 0x64, 0x65, 0x66, 0x67, 0x68, 0x69, 0x6A]"

definition example_written :: UDPStream where
  "example_written =
     example_stream\<lparr>
       kcp := example_kcp\<lparr>snd_buf :=
         [[0x31, 0x61, 0x62, 0x63, 0x64, 0x65, 0x66, 0x67], [0x31, 0x68, 0x69, 0x6A]]\<rparr>,
       sendbuf := [0x31, 0x68, 0x69, 0x6A, 0x64, 0x65, 0x66, 0x67] @ replicate 40 0,
       chWriteEvent := True,
       snmp := example_snmp\<lparr>BytesSent := 3\<rparr>,
       wire := [(UDPTunnel 7,
         [\<lparr>Buffers = [example_uuid @ replicate 24 0 @ [0x31, 0x61, 0x62, 0x63, 0x64, 0x65, 0x66, 0x67]],
            Addr = UDPAddr [10, 0, 0, 1] 7001\<rparr>,
          \<lparr>Buffers = [example_uuid @ replicate 24 0 @ [0x31, 0x68, 0x69, 0x6A]],
            Addr = UDPAddr [10, 0, 0, 1] 7001\<rparr>])]\<rparr>"

text \<open>The stream after its first \<^verbatim>\<open>Close\<close>, and after its first \<^verbatim>\<open>CloseWrite\<close>.\<close>

definition example_closed :: UDPStream where
  "example_closed =
     example_stream\<lparr>
       kcp := example_kcp\<lparr>snd_buf := [[0x35]]\<rparr>,
       sendbuf := 0x35 # replicate 47 0,
       chClean := Some 5000001000, closeOnce := True, chClose := True, chWriteEvent := True,
       snmp := example_snmp\<lparr>CurrEstab := 0\<rparr>,
       wire := [(UDPTunnel 7,
         [\<lparr>Buffers = [example_uuid @ replicate 24 0 @ [0x35]],
            Addr = UDPAddr [10, 0, 0, 1] 7001\<rparr>])]\<rparr>"

definition example_half_closed :: UDPStream where
  "example_half_closed =
     example_stream\<lparr>
       kcp := example_kcp\<lparr>snd_buf := [[0x33]]\<rparr>,
       sendbuf := 0x33 # replicate 47 0,
       sendFinOnce := True, chSendFinEvent := True, chWriteEvent := True,
       wire := [(UDPTunnel 7,
         [\<lparr>Buffers = [example_uuid @ replicate 24 0 @ [0x33]],
            Addr = UDPAddr [10, 0, 0, 1] 7001\<rparr>])]\<rparr>"

text \<open>
  The half-closed stream once the peer's RST has been read: \<^verbatim>\<open>reset\<close> has closed the reset
  signal and released what the engine held.
\<close>

definition example_half_closed_reset :: UDPStream where
  "example_half_closed_reset =
     example_half_closed\<lparr>rstOnce := True, chRst := True, kcp := example_kcp\<rparr>"

section \<open>Properties\<close>

subsection \<open>Computing on numerals\<close>

lemma replicate_numeral: "replicate (numeral k) x = x # replicate (pred_numeral k) x"
  by (simp add: numeral_eq_Suc)

lemma example_stream_is_new:
  "NewUDPStream example_deps 1000 \<lparr>BytesSent = 0, BytesReceived = 0, CurrEstab = 0, MaxConn = 0\<rparr>
     example_kcp example_uuid False [endpoint1, endpoint2] = Inr example_stream"
  by (simp add: NewUDPStream_def example_deps_def example_resolve_def endpoint1_def endpoint2_def
      example_stream_def example_snmp_def uuid_Size_def DefaultParallelXmit_def
      DefaultParallelTime_def Second_def Let_def)

subsection \<open>The replication factor\<close>

text \<open>
  C3. The factor that \<^verbatim>\<open>parallelTun\<close> returns for a segment sent \<open>xmitMax\<close> times is
  the number of tunnels when \<open>xmitMax\<close> has reached \<^verbatim>\<open>parallelXmit\<close>, and then the expiry
  becomes the clock plus \<^verbatim>\<open>parallelTime\<close>; below the threshold it is the number of
  tunnels when the expiry is set (not the zero instant) and lies in the future, and 1
  otherwise.
\<close>

theorem parallelTun_factor:
  "fst (parallelTun xmitMax s) =
     (if parallelXmit s \<le> xmitMax then length (tunnels s)
      else if parallelExpire s \<noteq> 0 \<and> clock s < parallelExpire s then length (tunnels s)
      else 1)
   \<and> (parallelXmit s \<le> xmitMax \<longrightarrow>
        parallelExpire (snd (parallelTun xmitMax s)) = clock s + parallelTime s)"
  by (simp add: parallelTun_def)

theorem parallelTun_factor_witness:
  "parallelXmit example_stream \<le> 5
   \<and> fst (parallelTun 5 example_stream) = 2
   \<and> parallelExpire (snd (parallelTun 5 example_stream)) = 60000001000
   \<and> \<not> parallelXmit example_stream \<le> 4
   \<and> fst (parallelTun 4 example_stream) = 1
   \<and> fst (parallelTun 4 (example_stream\<lparr>parallelExpire := 2000\<rparr>)) = 2
   \<and> fst (parallelTun 4 (example_stream\<lparr>parallelExpire := 500\<rparr>)) = 1"
  using parallelTun_factor [of 5 example_stream] parallelTun_factor [of 4 example_stream]
    parallelTun_factor [of 4 "example_stream\<lparr>parallelExpire := 2000\<rparr>"]
    parallelTun_factor [of 4 "example_stream\<lparr>parallelExpire := 500\<rparr>"]
  by (simp add: example_stream_def)

subsection \<open>The copies that \<^verbatim>\<open>output\<close> queues\<close>


lemma copy_length [simp]: "length (copy dst src) = length dst"
  by (simp add: copy_def)

lemma output_copy_Ok:
  assumes "output_copy D buf i s = Ok s'" and "length (uuid s) = uuid_Size"
  shows "s' = s\<lparr>msgss := (msgss s)[i := msgss s ! i @
            [\<lparr>Buffers = [uuid s @ drop uuid_Size buf], Addr = remotes s ! i\<rparr>]]\<rparr>
         \<and> i < length (remotes s) \<and> i < length (msgss s) \<and> uuid_Size \<le> length buf"
proof -
  from assms(1) have len: "length buf \<le> length (xmitBuf_Get D i)" "uuid_Size \<le> length buf"
    and idx: "i < length (remotes s)" "i < length (msgss s)"
    by (auto simp: output_copy_def Let_def split: if_splits)
  let ?p = "take (length buf) (xmitBuf_Get D i)"
  have bts: "take uuid_Size (copy ?p (uuid s))
               @ copy (drop uuid_Size (copy ?p (uuid s))) (drop uuid_Size buf)
             = uuid s @ drop uuid_Size buf"
    using len assms(2) by (simp add: copy_def)
  from assms(1) [unfolded output_copy_def Let_def bts] len idx show ?thesis
    by (auto split: if_splits)
qed

lemma output_loop_Ok:
  assumes "output_loop D buf i n s = Ok s'" and "length (uuid s) = uuid_Size"
  shows "length (msgss s') = length (msgss s)
     \<and> (i < n \<longrightarrow> n \<le> length (msgss s) \<and> n \<le> length (remotes s) \<and> uuid_Size \<le> length buf)
     \<and> (\<forall>j < length (msgss s). msgss s' ! j =
           (if i \<le> j \<and> j < n
            then msgss s ! j @ [\<lparr>Buffers = [uuid s @ drop uuid_Size buf], Addr = remotes s ! j\<rparr>]
            else msgss s ! j))
     \<and> s' = s\<lparr>msgss := msgss s'\<rparr>"
  using assms
proof (induction D buf i n s rule: output_loop.induct)
  case (1 D buf i n s)
  show ?case
  proof (cases "i < n")
    case False
    with "1.prems" show ?thesis by (simp add: output_loop.simps [of D buf i n s])
  next
    case True
    with "1.prems"(1) obtain s1 where c: "output_copy D buf i s = Ok s1"
      and l: "output_loop D buf (i + 1) n s1 = Ok s'"
      by (auto simp: output_loop.simps [of D buf i n s] split: exec.splits)
    note oc = output_copy_Ok [OF c "1.prems"(2)]
    have u1: "uuid s1 = uuid s" "remotes s1 = remotes s" "length (msgss s1) = length (msgss s)"
      by (subst conjunct1 [OF oc], simp)+
    have IH: "length (msgss s') = length (msgss s1)
     \<and> (i + 1 < n \<longrightarrow> n \<le> length (msgss s1) \<and> n \<le> length (remotes s1) \<and> uuid_Size \<le> length buf)
     \<and> (\<forall>j < length (msgss s1). msgss s' ! j =
           (if i + 1 \<le> j \<and> j < n
            then msgss s1 ! j @ [\<lparr>Buffers = [uuid s1 @ drop uuid_Size buf], Addr = remotes s1 ! j\<rparr>]
            else msgss s1 ! j))
     \<and> s' = s1\<lparr>msgss := msgss s'\<rparr>"
      using "1.IH" [OF True c l] "1.prems"(2) u1 by simp
    have m1: "msgss s1 = (msgss s)[i := msgss s ! i @
            [\<lparr>Buffers = [uuid s @ drop uuid_Size buf], Addr = remotes s ! i\<rparr>]]"
      by (subst conjunct1 [OF oc], simp)
    have a: "length (msgss s') = length (msgss s)" using IH u1 by simp
    have b: "n \<le> length (msgss s) \<and> n \<le> length (remotes s) \<and> uuid_Size \<le> length buf"
      using IH oc u1 True by (cases "i + 1 < n") auto
    have c': "\<forall>j < length (msgss s). msgss s' ! j =
           (if i \<le> j \<and> j < n
            then msgss s ! j @ [\<lparr>Buffers = [uuid s @ drop uuid_Size buf], Addr = remotes s ! j\<rparr>]
            else msgss s ! j)"
    proof (intro allI impI)
      fix j assume j: "j < length (msgss s)"
      then have "msgss s' ! j =
           (if i + 1 \<le> j \<and> j < n
            then msgss s1 ! j @ [\<lparr>Buffers = [uuid s1 @ drop uuid_Size buf], Addr = remotes s1 ! j\<rparr>]
            else msgss s1 ! j)" using IH u1 by simp
      then show "msgss s' ! j =
           (if i \<le> j \<and> j < n
            then msgss s ! j @ [\<lparr>Buffers = [uuid s @ drop uuid_Size buf], Addr = remotes s ! j\<rparr>]
            else msgss s ! j)"
        using u1 m1 j True by (cases "j = i") (auto simp: nth_list_update)
    qed
    have d: "s' = s\<lparr>msgss := msgss s'\<rparr>"
      using IH by (subst (asm) (3) conjunct1 [OF oc]) simp
    from a b c' d show ?thesis by blast
  qed
qed


lemma output_msg_Ok:
  assumes "output_msg D buf xmitMax s = Ok s'" and "length (uuid s) = uuid_Size"
  shows "length (msgss s') = max (length (msgss s)) (fst (parallelTun xmitMax s))"
    and "0 < fst (parallelTun xmitMax s) \<Longrightarrow>
           fst (parallelTun xmitMax s) \<le> length (remotes s) \<and> uuid_Size \<le> length buf"
    and "j < length (msgss s') \<Longrightarrow> msgss s' ! j =
           (if j < length (msgss s) then msgss s ! j else []) @
           (if j < fst (parallelTun xmitMax s)
            then [\<lparr>Buffers = [uuid s @ drop uuid_Size buf], Addr = remotes s ! j\<rparr>] else [])"
    and "s' = (snd (parallelTun xmitMax s))\<lparr>msgss := msgss s'\<rparr>"
proof -
  obtain k s1 where p: "parallelTun xmitMax s = (k, s1)" by (cases "parallelTun xmitMax s")
  define s2 where "s2 = s1\<lparr>msgss := msgss s1 @ replicate (k - length (msgss s1)) []\<rparr>"
  have s1: "uuid s1 = uuid s" "remotes s1 = remotes s" "msgss s1 = msgss s"
    using p by (auto simp: parallelTun_def split: if_splits)
  have l: "output_loop D buf 0 k s2 = Ok s'"
    using assms(1) p by (simp add: output_msg_def s2_def)
  have u2: "length (uuid s2) = uuid_Size" "uuid s2 = uuid s" "remotes s2 = remotes s"
    "msgss s2 = msgss s @ replicate (k - length (msgss s)) []"
    using s1 assms(2) by (simp_all add: s2_def)
  note L = output_loop_Ok [OF l u2(1)]
  have len2: "length (msgss s2) = max (length (msgss s)) k" using u2 by simp
  show "length (msgss s') = max (length (msgss s)) (fst (parallelTun xmitMax s))"
    using L len2 p by simp
  show "0 < fst (parallelTun xmitMax s) \<Longrightarrow>
           fst (parallelTun xmitMax s) \<le> length (remotes s) \<and> uuid_Size \<le> length buf"
    using L p u2 by simp
  show "s' = (snd (parallelTun xmitMax s))\<lparr>msgss := msgss s'\<rparr>"
    using L p by (simp add: s2_def)
  show "msgss s' ! j =
           (if j < length (msgss s) then msgss s ! j else []) @
           (if j < fst (parallelTun xmitMax s)
            then [\<lparr>Buffers = [uuid s @ drop uuid_Size buf], Addr = remotes s ! j\<rparr>] else [])"
    if j: "j < length (msgss s')"
  proof -
    have j2: "j < length (msgss s2)" using j L by simp
    then have "msgss s' ! j = (if 0 \<le> j \<and> j < k
            then msgss s2 ! j @ [\<lparr>Buffers = [uuid s2 @ drop uuid_Size buf], Addr = remotes s2 ! j\<rparr>]
            else msgss s2 ! j)" using L by blast
    moreover have "msgss s2 ! j = (if j < length (msgss s) then msgss s ! j else [])"
      using j2 u2(4) by (auto simp: nth_append)
    ultimately show ?thesis using p u2 by simp
  qed
qed

lemma output_copy_no_panic:
  assumes "length buf \<le> length (xmitBuf_Get D i)" "uuid_Size \<le> length buf"
    "i < length (remotes s)" "i < length (msgss s)"
  shows "\<exists>s'. output_copy D buf i s = Ok s'"
  using assms by (simp add: output_copy_def Let_def)

lemma output_loop_no_panic:
  assumes "\<forall>i. length buf \<le> length (xmitBuf_Get D i)" "uuid_Size \<le> length buf"
    "n \<le> length (remotes s)" "n \<le> length (msgss s)" "length (uuid s) = uuid_Size"
  shows "\<exists>s'. output_loop D buf i n s = Ok s'"
  using assms
proof (induction D buf i n s rule: output_loop.induct)
  case (1 D buf i n s)
  show ?case
  proof (cases "i < n")
    case False
    then show ?thesis by (simp add: output_loop.simps [of D buf i n s])
  next
    case True
    with "1.prems" obtain s1 where c: "output_copy D buf i s = Ok s1"
      using output_copy_no_panic [of buf D i s] by auto
    note oc = output_copy_Ok [OF c "1.prems"(5)]
    have u1: "uuid s1 = uuid s" "remotes s1 = remotes s" "length (msgss s1) = length (msgss s)"
      by (subst conjunct1 [OF oc], simp)+
    have "\<exists>s'. output_loop D buf (i + 1) n s1 = Ok s'"
      using "1.IH" [OF True c] "1.prems" u1 by simp
    with True c show ?thesis by (simp add: output_loop.simps [of D buf i n s])
  qed
qed

lemma output_msg_no_panic:
  assumes "\<forall>i. length buf \<le> length (xmitBuf_Get D i)" "uuid_Size \<le> length buf"
    "length (tunnels s) = length (remotes s)" "tunnels s \<noteq> []" "length (uuid s) = uuid_Size"
  shows "\<exists>s'. output_msg D buf xmitMax s = Ok s'"
proof -
  obtain k s1 where p: "parallelTun xmitMax s = (k, s1)" by (cases "parallelTun xmitMax s")
  have s1: "uuid s1 = uuid s" "remotes s1 = remotes s" "msgss s1 = msgss s"
    and k: "k \<le> length (remotes s)"
    using p assms(3,4) by (auto simp: parallelTun_def Suc_le_eq split: if_splits)
  show ?thesis
    unfolding output_msg_def p
    using output_loop_no_panic [of buf D k "s1\<lparr>msgss := msgss s1 @ replicate (k - length (msgss s1)) []\<rparr>" 0]
      assms s1 k by simp
qed

text \<open>
  C5. When \<^verbatim>\<open>output\<close> returns, it has appended to each of the first \<open>k\<close> queues, \<open>k\<close> the
  factor of \<^verbatim>\<open>parallelTun\<close>, one message and nothing else: its only buffer has the length of
  the segment, starts with the 16 bytes of the UUID and goes on with the segment's bytes
  from offset 16, and its address is \<open>remotes ! i\<close>. The other queues are as they were.
\<close>

theorem output_msg_copies:
  assumes "output_msg D buf xmitMax s = Ok s'" and "length (uuid s) = uuid_Size"
  shows "length (msgss s') = max (length (msgss s)) (fst (parallelTun xmitMax s))
    \<and> (\<forall>i < length (msgss s').
          msgss s' ! i =
            (if i < length (msgss s) then msgss s ! i else []) @
            (if i < fst (parallelTun xmitMax s)
             then [\<lparr>Buffers = [uuid s @ drop uuid_Size buf], Addr = remotes s ! i\<rparr>] else []))
    \<and> (0 < fst (parallelTun xmitMax s) \<longrightarrow>
          fst (parallelTun xmitMax s) \<le> length (remotes s)
          \<and> length (uuid s @ drop uuid_Size buf) = length buf
          \<and> take uuid_Size (uuid s @ drop uuid_Size buf) = uuid s
          \<and> drop uuid_Size (uuid s @ drop uuid_Size buf) = drop uuid_Size buf)"
  using output_msg_Ok(1,2,3) [OF assms] assms(2) by simp

lemma example_output:
  "output_msg example_deps example_segment 5 example_stream =
     Ok (example_stream\<lparr>parallelExpire := 60000001000,
           msgss := [[\<lparr>Buffers = [example_uuid @ replicate 24 17 @ [0x31, 0x68, 0x69]],
                       Addr = UDPAddr [10, 0, 0, 1] 7001\<rparr>],
                     [\<lparr>Buffers = [example_uuid @ replicate 24 17 @ [0x31, 0x68, 0x69]],
                       Addr = UDPAddr [10, 0, 0, 2] 7001\<rparr>]]\<rparr>)"
  by (simp add: output_msg_def parallelTun_def output_loop.simps output_copy_def copy_def
      example_stream_def example_deps_def example_segment_def example_uuid_def uuid_Size_def
      replicate_numeral Let_def)

theorem output_msg_copies_witness:
  "length (uuid example_stream) = uuid_Size
   \<and> fst (parallelTun 5 example_stream) = 2
   \<and> output_msg example_deps example_segment 5 example_stream =
       Ok (example_stream\<lparr>parallelExpire := 60000001000,
           msgss := [[\<lparr>Buffers = [example_uuid @ replicate 24 17 @ [0x31, 0x68, 0x69]],
                       Addr = UDPAddr [10, 0, 0, 1] 7001\<rparr>],
                     [\<lparr>Buffers = [example_uuid @ replicate 24 17 @ [0x31, 0x68, 0x69]],
                       Addr = UDPAddr [10, 0, 0, 2] 7001\<rparr>]]\<rparr>)
   \<and> [\<lparr>Buffers = [example_uuid @ replicate 24 17 @ [0x31, 0x68, 0x69]],
         Addr = UDPAddr [10, 0, 0, 1] 7001\<rparr>] =
       [\<lparr>Buffers = [uuid example_stream @ drop uuid_Size example_segment],
         Addr = remotes example_stream ! 0\<rparr>]
   \<and> [\<lparr>Buffers = [example_uuid @ replicate 24 17 @ [0x31, 0x68, 0x69]],
         Addr = UDPAddr [10, 0, 0, 2] 7001\<rparr>] =
       [\<lparr>Buffers = [uuid example_stream @ drop uuid_Size example_segment],
         Addr = remotes example_stream ! 1\<rparr>]
   \<and> length (example_uuid @ replicate 24 17 @ [0x31, 0x68, 0x69 :: byte]) = length example_segment"
proof -
  have u: "length (uuid example_stream) = uuid_Size"
    by (simp add: example_stream_def example_uuid_def uuid_Size_def)
  have k: "fst (parallelTun 5 example_stream) = 2"
    by (simp add: parallelTun_def example_stream_def)
  have f: "uuid example_stream = example_uuid"
    "remotes example_stream = [UDPAddr [10, 0, 0, 1] 7001, UDPAddr [10, 0, 0, 2] 7001]"
    by (simp_all add: example_stream_def)
  have d: "drop 16 example_segment = replicate 24 17 @ [0x31, 0x68, 0x69]"
    "length example_segment = 43" "length example_uuid = 16"
    by (simp_all add: example_segment_def uuid_Size_def example_uuid_def)
  show ?thesis
    using output_msg_copies [OF example_output u]
    by (simp add: k f d example_output uuid_Size_def)
qed

subsection \<open>Dial on an accepted stream\<close>

text \<open>
  C9. On an accepted stream \<^verbatim>\<open>Dial\<close> returns nil and leaves the stream as it was, for all
  local endpoints and every timeout: nothing is written, nothing is flushed, no wakeup is
  waited for.
\<close>

theorem Dial_accepted:
  "accepted s \<Longrightarrow> Dial D c ws ws' locals timeout s = Some (Ok (None, s))"
  by (simp add: Dial_def)

theorem Dial_accepted_witness:
  "accepted (example_stream\<lparr>accepted := True\<rparr>)
   \<and> Dial example_deps 0 [] [] [endpoint1] (5 * Second) (example_stream\<lparr>accepted := True\<rparr>)
       = Some (Ok (None, example_stream\<lparr>accepted := True\<rparr>))
   \<and> Dial example_deps 3 [] [] [] 0 (example_stream\<lparr>accepted := True, chClose := True\<rparr>)
       = Some (Ok (None, example_stream\<lparr>accepted := True, chClose := True\<rparr>))"
  using Dial_accepted [of "example_stream\<lparr>accepted := True\<rparr>" example_deps 0 "[]" "[]"
      "[endpoint1]" "5 * Second"]
    Dial_accepted [of "example_stream\<lparr>accepted := True, chClose := True\<rparr>" example_deps 3 "[]" "[]"
      "[]" 0]
  by simp

subsection \<open>The message that Read takes from the engine\<close>

text \<open>
  A \<^verbatim>\<open>Read\<close> that finds no signal closed and nothing left in \<open>bufptr\<close> takes the next
  message from the engine into \<^verbatim>\<open>recvbuf\<close> and hands its tag and payload to \<^verbatim>\<open>cmdRead\<close>.
\<close>

lemma Read_message:
  assumes "\<not> chClose s" "\<not> chRst s" "\<not> chRecvFinEvent s" "bufptr s = []"
    and "rcv_queue (kcp s) = (flag # data) # rest"
  shows "Read D c ws b s =
     (case cmdRead D flag data b
             (s\<lparr>recvbuf_cap := max (recvbuf_cap s) (Suc (length data)),
                recvbuf := flag # data,
                kcp := (kcp s)\<lparr>rcv_queue := rest\<rparr>\<rparr>) of
        Panic \<Rightarrow> Some Panic
      | Ok ((n, err), b', s') \<Rightarrow>
          if length (recvbuf s') < n + 1 then Some Panic
          else Some (Ok ((if flag \<noteq> PSH then 0 else n, err), b',
                 s'\<lparr>bufptr := drop (n + 1) (recvbuf s'),
                    snmp := (snmp s')\<lparr>BytesReceived := BytesReceived (snmp s') + of_nat (n + 1)\<rparr>\<rparr>)))"
proof -
  let ?size = "Suc (length data)"
  have len: "length (take ?size (xs @ replicate (?size - length xs) (0::byte))) = ?size" for xs
    by simp
  have cp: "copy (take ?size (xs @ replicate (?size - length xs) 0)) (flag # data) = flag # data"
    for xs
    unfolding copy_def len by simp
  have rv: "Recv (take ?size (xs @ replicate (?size - length xs) 0)) (kcp s)
      = (flag # data, (kcp s)\<lparr>rcv_queue := rest\<rparr>)" for xs
    unfolding Recv_def assms(5) list.case len cp by simp
  have l: "Read_loop D b s ws =
     (case cmdRead D flag data b
             (s\<lparr>recvbuf_cap := max (recvbuf_cap s) (Suc (length data)),
                recvbuf := flag # data,
                kcp := (kcp s)\<lparr>rcv_queue := rest\<rparr>\<rparr>) of
        Panic \<Rightarrow> Some Panic
      | Ok ((n, err), b', s') \<Rightarrow>
          if length (recvbuf s') < n + 1 then Some Panic
          else Some (Ok ((if flag \<noteq> PSH then 0 else n, err), b',
                 s'\<lparr>bufptr := drop (n + 1) (recvbuf s'),
                    snmp := (snmp s')\<lparr>BytesReceived := BytesReceived (snmp s') + of_nat (n + 1)\<rparr>\<rparr>)))"
  proof (cases "recvbuf_cap s < ?size")
    case True
    then show ?thesis
      using assms(4,5) rv [of "replicate ?size 0"]
      by (simp add: Read_loop.simps [of D b s ws] PeekSize_def Let_def max_def
          split: exec.splits prod.splits)
  next
    case False
    then show ?thesis
      using assms(4,5) rv [of "recvbuf s"]
      by (simp add: Read_loop.simps [of D b s ws] PeekSize_def Let_def max_def
          split: exec.splits prod.splits)
  qed
  show ?thesis
    using assms(1-3) l by (simp add: Read_def ready_def)
qed

subsection \<open>SYN\<close>

lemma recvSyn_sets_once: "recvSynOnce (snd (recvSyn D d s))"
  by (simp add: recvSyn_def Let_def split: sum.splits)

lemma recvSyn_again: "recvSynOnce s \<Longrightarrow> recvSyn D d s = ((length d, None), s)"
  by (simp add: recvSyn_def)

lemma recvSyns_again:
  "recvSynOnce s \<Longrightarrow> recvSyns D ds s = (map (\<lambda>d. (length d, None)) ds, s)"
  by (induction ds) (simp_all add: recvSyn_again)

lemma recvSyn_arrays:
  "tunnels (snd (recvSyn D d s)) \<noteq> tunnels s \<or> remotes (snd (recvSyn D d s)) \<noteq> remotes s
     \<Longrightarrow> \<not> recvSynOnce s"
  by (auto simp: recvSyn_again)

lemma Read_SYN_again:
  assumes "\<not> chClose s" "\<not> chRst s" "\<not> chRecvFinEvent s" "bufptr s = []"
    and "rcv_queue (kcp s) = (SYN # d) # rest" and "recvSynOnce s"
  shows "Read D c ws b s =
     Some (Ok ((0, None), b,
       s\<lparr>recvbuf := SYN # d,
         recvbuf_cap := max (recvbuf_cap s) (Suc (length d)),
         kcp := (kcp s)\<lparr>rcv_queue := rest\<rparr>,
         snmp := (snmp s)\<lparr>BytesReceived := BytesReceived (snmp s) + of_nat (Suc (length d))\<rparr>\<rparr>))"
  using assms(4,6)
  by (simp add: Read_message [OF assms(1-5)] cmdRead_def recvSyn_again SYN_def PSH_def)



lemma Split_space_not_empty: "Split_space data \<noteq> []"
  by (induction data) (auto split: list.splits)

lemma recvSyn_empty_payload:
  "\<not> recvSynOnce s \<Longrightarrow> Pick D [[]] = [t] \<Longrightarrow> ResolveUDPAddr D [] = Inr a \<Longrightarrow>
     recvSyn D [] s = ((0, None), s\<lparr>recvSynOnce := True, tunnels := [t], remotes := [a]\<rparr>)"
  by (simp add: recvSyn_def)

text \<open>
  C8. A SYN with an empty payload is not refused: \<^verbatim>\<open>strings.Split\<close> gives the one empty
  endpoint, the test for an empty list does not fire, the selector and the resolver are
  asked, and here, where they answer, the tunnels and remotes are replaced and no error
  is returned.
\<close>

theorem recvSyn_empty_payload_accepted:
  "Split_space [] = [[]]
   \<and> recvSyn example_deps [] (example_stream\<lparr>accepted := True\<rparr>) =
       ((0, None),
        example_stream\<lparr>accepted := True, recvSynOnce := True,
          tunnels := [UDPTunnel 7], remotes := [UDPAddr [] 0]\<rparr>)"
  by (simp add: recvSyn_def example_deps_def example_resolve_def example_stream_def)

subsection \<open>Computing the calls on the example\<close>

lemma first_xmit_below_threshold: "\<not> (5 :: 32 word) \<le> 1"
  by (simp add: word_le_nat_alt)

lemmas example_defs =
  example_stream_def example_deps_def example_kcp_def example_snmp_def example_uuid_def
  example_flush_def example_resolve_def

lemmas write_defs =
  Write_def WriteFlag_def WriteBuffer_def WriteBuffer_loop.simps send_loop.simps
  flush_def kcp_output_def output_msg_def parallelTun_def output_loop.simps output_copy_def
  ready_def chosen_def timer_fired_def copy_def
  WaitSnd_def Send_def notifyWriteEvent_def uuid_Size_def PSH_def SYN_def FIN_def HRT_def RST_def
  replicate_numeral first_xmit_below_threshold Let_def

lemmas read_defs =
  Read_def Read_loop.simps cmdRead_def
  ready_def chosen_def timer_fired_def copy_def copy_n_def
  PeekSize_def Recv_def PSH_def SYN_def FIN_def HRT_def RST_def
  replicate_numeral Let_def

lemma example_Close:
  "Close example_deps 0 [] example_stream = Some (Ok (None, example_closed))"
  by (simp add: Close_def example_closed_def example_defs write_defs CleanTimeout_def Second_def)

lemma example_CloseWrite:
  "CloseWrite example_deps 0 [] example_stream = Some (Ok (None, example_half_closed))"
  by (simp add: CloseWrite_def example_half_closed_def example_defs write_defs)

subsection \<open>What Write returns\<close>

text \<open>
  C1. With \<open>mss = 8\<close> a \<^verbatim>\<open>Write\<close> of ten bytes hands the engine two segments, the tag and
  seven bytes and the tag and three bytes, and returns 3 without an error: the length of
  the last fragment, which is also what it adds to \<^verbatim>\<open>BytesSent\<close>.
\<close>

theorem Write_returns_tail_length:
  "Write example_deps 0 [] example_data example_stream = Some (Ok ((3, None), example_written))
   \<and> length example_data = 10
   \<and> snd_buf (kcp example_written) = [PSH # take 7 example_data, PSH # drop 7 example_data]
   \<and> BytesSent (snmp example_written) = 3"
  by (simp add: example_written_def example_data_def example_defs write_defs)

subsection \<open>Writing on a half-closed stream\<close>

lemma example_other_CloseWrite:
  "other_CloseWrite example_window_full = example_window_full_closed"
  by (simp add: other_CloseWrite_def acked_def CloseWrite_def example_window_full_def
      example_window_full_closed_def example_defs write_defs)

text \<open>
  C7. A \<^verbatim>\<open>Write\<close> that waits for window space when another goroutine's \<^verbatim>\<open>CloseWrite\<close>
  closes the send-FIN signal, and for which the runtime chooses that case, returns
  \<^verbatim>\<open>io.EOF\<close>; the \<^verbatim>\<open>Write\<close> that finds the signal closed when it is called returns
  \<^verbatim>\<open>io.ErrClosedPipe\<close>.
\<close>

theorem Write_half_closed_while_waiting:
  "Write example_deps 0 [Wakeup other_CloseWrite 0] [0x61] example_window_full
     = Some (Ok ((0, Some EOF), example_window_full_closed))
   \<and> chSendFinEvent example_window_full_closed
   \<and> \<not> chSendFinEvent example_window_full
   \<and> Write example_deps 0 [] [0x61] example_window_full_closed
     = Some (Ok ((0, Some ErrClosedPipe), example_window_full_closed))"
proof -
  have a: "Write example_deps 0 [Wakeup other_CloseWrite 0] [0x61] example_window_full
     = WriteBuffer_wait example_deps PSH [0x61] example_window_full None [Wakeup other_CloseWrite 0]"
    by (simp add: Write_def WriteBuffer_def ready_def WriteBuffer_loop.simps WaitSnd_def Let_def
        example_window_full_def example_stream_def example_kcp_def)
  have w: "WriteBuffer_wait example_deps PSH [0x61] example_window_full None [Wakeup other_CloseWrite 0]
     = Some (Ok ((0, Some EOF), example_window_full_closed))"
    by (simp add: example_other_CloseWrite)
      (simp add: example_window_full_closed_def example_stream_def ready_def chosen_def
        timer_fired_def)
  have b: "chSendFinEvent example_window_full_closed" "\<not> chSendFinEvent example_window_full"
    by (simp_all add: example_window_full_closed_def example_window_full_def example_stream_def)
  have c: "Write example_deps 0 [] [0x61] example_window_full_closed
     = Some (Ok ((0, Some ErrClosedPipe), example_window_full_closed))"
    by (simp add: Write_def WriteBuffer_def ready_def chosen_def
        example_window_full_closed_def example_stream_def)
  show ?thesis unfolding a w using b c by simp
qed

subsection \<open>An unknown tag\<close>

lemma cmdRead_unknown:
  "flag \<notin> {PSH, SYN, FIN, HRT, RST} \<Longrightarrow> cmdRead D flag data b s = Ok ((0, Some errStreamFlag), b, s)"
  by (simp add: cmdRead_def)

lemma Read_unknown:
  assumes "\<not> chClose s" "\<not> chRst s" "\<not> chRecvFinEvent s" "bufptr s = []"
    and "rcv_queue (kcp s) = (flag # data) # rest"
    and "flag \<notin> {PSH, SYN, FIN, HRT, RST}"
  shows "Read D c ws b s =
     Some (Ok ((0, Some errStreamFlag), b,
       s\<lparr>recvbuf := flag # data,
         recvbuf_cap := max (recvbuf_cap s) (Suc (length data)),
         kcp := (kcp s)\<lparr>rcv_queue := rest\<rparr>,
         bufptr := data,
         snmp := (snmp s)\<lparr>BytesReceived := BytesReceived (snmp s) + 1\<rparr>\<rparr>))"
  using assms(6)
  by (simp add: Read_message [OF assms(1-5)] cmdRead_unknown [OF assms(6)])




subsection \<open>What a write leaves alone\<close>


lemma write_frame_refl [simp]: "write_frame s s"
  by (simp add: write_frame_def)

lemma write_frame_trans: "write_frame a b \<Longrightarrow> write_frame b c \<Longrightarrow> write_frame a c"
  unfolding write_frame_def
proof -
  assume 1: "b = a\<lparr>kcp := kcp b, sendbuf := sendbuf b, msgss := msgss b,
            parallelExpire := parallelExpire b, chWriteEvent := chWriteEvent b,
            wire := wire b, snmp := snmp b\<rparr>"
    and 2: "c = b\<lparr>kcp := kcp c, sendbuf := sendbuf c, msgss := msgss c,
            parallelExpire := parallelExpire c, chWriteEvent := chWriteEvent c,
            wire := wire c, snmp := snmp c\<rparr>"
  have "c = (a\<lparr>kcp := kcp b, sendbuf := sendbuf b, msgss := msgss b,
            parallelExpire := parallelExpire b, chWriteEvent := chWriteEvent b,
            wire := wire b, snmp := snmp b\<rparr>)\<lparr>kcp := kcp c, sendbuf := sendbuf c, msgss := msgss c,
            parallelExpire := parallelExpire c, chWriteEvent := chWriteEvent c,
            wire := wire c, snmp := snmp c\<rparr>"
    by (subst 2, subst 1) (rule refl)
  then show "c = a\<lparr>kcp := kcp c, sendbuf := sendbuf c, msgss := msgss c,
            parallelExpire := parallelExpire c, chWriteEvent := chWriteEvent c,
            wire := wire c, snmp := snmp c\<rparr>"
    by simp
qed

lemma write_frame_upd [simp]:
  "write_frame s (s\<lparr>kcp := k\<rparr>)" "write_frame s (s\<lparr>sendbuf := sb\<rparr>)"
  "write_frame s (s\<lparr>msgss := m\<rparr>)" "write_frame s (s\<lparr>parallelExpire := e\<rparr>)"
  "write_frame s (s\<lparr>chWriteEvent := ev\<rparr>)" "write_frame s (s\<lparr>wire := w\<rparr>)"
  "write_frame s (s\<lparr>snmp := c\<rparr>)"
  by (simp_all add: write_frame_def)

lemma write_frame_keeps:
  assumes "write_frame s s'"
  shows "closeOnce s' = closeOnce s" "sendFinOnce s' = sendFinOnce s"
    "chClose s' = chClose s" "chSendFinEvent s' = chSendFinEvent s" "chRst s' = chRst s"
    "clock s' = clock s" "uuid s' = uuid s" "tunnels s' = tunnels s" "remotes s' = remotes s"
    "headerSize s' = headerSize s"
  by (insert assms [unfolded write_frame_def], (erule ssubst, simp)+)


lemma output_copy_frame: "output_copy D buf i s = Ok s' \<Longrightarrow> write_frame s s'"
  by (auto simp: output_copy_def Let_def split: if_splits)

lemma output_loop_frame: "output_loop D buf i n s = Ok s' \<Longrightarrow> write_frame s s'"
proof (induction D buf i n s rule: output_loop.induct)
  case (1 D buf i n s)
  show ?case
  proof (cases "i < n")
    case False
    with "1.prems" show ?thesis by (simp add: output_loop.simps [of D buf i n s])
  next
    case True
    with "1.prems" obtain s1 where c: "output_copy D buf i s = Ok s1"
      and l: "output_loop D buf (i + 1) n s1 = Ok s'"
      by (auto simp: output_loop.simps [of D buf i n s] split: exec.splits)
    from output_copy_frame [OF c] "1.IH" [OF True c l] show ?thesis
      by (rule write_frame_trans)
  qed
qed

lemma parallelTun_frame: "write_frame s (snd (parallelTun xmitMax s))"
  by (simp add: parallelTun_def)

lemma output_msg_frame:
  assumes "output_msg D buf xmitMax s = Ok s'"
  shows "write_frame s s'"
proof -
  obtain k s1 where p: "parallelTun xmitMax s = (k, s1)" by (cases "parallelTun xmitMax s")
  have 1: "write_frame s s1" using parallelTun_frame [of s xmitMax] p by simp
  have 2: "write_frame s1 (s1\<lparr>msgss := msgss s1 @ replicate (k - length (msgss s1)) []\<rparr>)"
    by simp
  have 3: "write_frame (s1\<lparr>msgss := msgss s1 @ replicate (k - length (msgss s1)) []\<rparr>) s'"
    using assms p by (auto simp: output_msg_def intro: output_loop_frame)
  from 1 2 3 show ?thesis by (blast intro: write_frame_trans)
qed

lemma kcp_outputs_frame: "kcp_outputs D segs s = Ok s' \<Longrightarrow> write_frame s s'"
proof (induction segs arbitrary: s)
  case Nil
  then show ?case by simp
next
  case (Cons seg segs)
  from Cons.prems obtain s1 where 1: "kcp_output D seg s = Ok s1"
    and 2: "kcp_outputs D segs s1 = Ok s'"
    by (auto split: exec.splits)
  have "write_frame s s1"
    using 1 by (auto simp: kcp_output_def split: prod.splits if_splits intro: output_msg_frame)
  with Cons.IH [OF 2] show ?case by (blast intro: write_frame_trans)
qed

lemma tunnels_output_frame: "tunnels_output i batches s = Ok s' \<Longrightarrow> write_frame s s'"
proof (induction i batches s rule: tunnels_output.induct)
  case (1 i s)
  then show ?case by simp
next
  case (2 i msgs rest s)
  show ?case
  proof (cases "0 < length msgs")
    case False
    with 2 show ?thesis by simp
  next
    case True
    with "2.prems" have t: "\<not> length (tunnels s) \<le> i"
      and r: "tunnels_output (i + 1) rest (s\<lparr>wire := wire s @ [(tunnels s ! i, msgs)]\<rparr>) = Ok s'"
      by (auto split: if_splits)
    have "write_frame s (s\<lparr>wire := wire s @ [(tunnels s ! i, msgs)]\<rparr>)" by simp
    with "2.IH"(1) [OF True t r] show ?thesis by (blast intro: write_frame_trans)
  qed
qed

lemma notifyWriteEvent_frame [simp]: "write_frame s (notifyWriteEvent s)"
  by (simp add: notifyWriteEvent_def)

lemma flush_frame:
  assumes "flush D kcpFlush s = Ok (interval, s')"
  shows "write_frame s s'"
proof -
  obtain iv s1 where 1: "(if kcpFlush then
              (case kcp_flush D (clock s) (kcp s) of (k, segs, interval) \<Rightarrow>
                 (case kcp_outputs D segs (s\<lparr>kcp := k\<rparr>) of
                    Panic \<Rightarrow> Panic | Ok s' \<Rightarrow> Ok (interval, s')))
            else Ok (0, s)) = Ok (iv, s1)"
    using assms by (auto simp: flush_def split: exec.splits)
  have f1: "write_frame s s1"
  proof (cases kcpFlush)
    case False
    with 1 show ?thesis by simp
  next
    case True
    with 1 obtain k segs where "kcp_outputs D segs (s\<lparr>kcp := k\<rparr>) = Ok s1"
      by (auto split: prod.splits exec.splits)
    then have "write_frame (s\<lparr>kcp := k\<rparr>) s1" by (rule kcp_outputs_frame)
    moreover have "write_frame s (s\<lparr>kcp := k\<rparr>)" by simp
    ultimately show ?thesis by (blast intro: write_frame_trans)
  qed
  have f2: "write_frame s1 s'"
  proof (cases "length (msgss s1) = 0")
    case True
    with assms 1 show ?thesis
      unfolding flush_def by (auto simp: Let_def split: if_splits)
  next
    case False
    define s2 where "s2 = s1\<lparr>msgss := []\<rparr>"
    define s3 where "s3 = (if WaitSnd (kcp s1) < unat (snd_wnd (kcp s1))
        \<and> WaitSnd (kcp s1) < unat (rmt_wnd (kcp s1)) then notifyWriteEvent s2 else s2)"
    have "tunnels_output 0 (msgss s1) s3 = Ok s'"
      using assms 1 False unfolding flush_def
      by (auto simp: Let_def s2_def s3_def split: if_splits exec.splits)
    then have "write_frame s3 s'" by (rule tunnels_output_frame)
    moreover have "write_frame s1 s2" by (simp add: s2_def)
    moreover have "write_frame s2 s3" by (simp add: s3_def)
    ultimately show ?thesis by (blast intro: write_frame_trans)
  qed
  from f1 f2 show ?thesis by (rule write_frame_trans)
qed


lemma WriteBuffer_loop_closed:
  assumes "\<not> (WaitSnd (kcp s) < unat (snd_wnd (kcp s)) \<and> WaitSnd (kcp s) < unat (rmt_wnd (kcp s)))"
  shows "WriteBuffer_loop D flag b s ws =
     (if wd s \<noteq> 0 \<and> wd s < clock s then Some (Ok ((0, Some errTimeout), s))
      else WriteBuffer_wait D flag b s
             (if wd s \<noteq> 0 then Some (clock s + (wd s - clock s)) else None) ws)"
  by (subst WriteBuffer_loop.simps) (simp only: Let_def if_not_P [OF assms])

lemma WriteBuffer_loop_open:
  assumes "WaitSnd (kcp s) < unat (snd_wnd (kcp s)) \<and> WaitSnd (kcp s) < unat (rmt_wnd (kcp s))"
    and "send_loop flag (kcp s) (sendbuf s) b = Some (Ok (k, sb, b'))"
  shows "WriteBuffer_loop D flag b s ws =
     (case (if unat (snd_wnd k) \<le> WaitSnd k \<or> unat (rmt_wnd k) \<le> WaitSnd k \<or> \<not> writeDelay s
            then flush D True (s\<lparr>kcp := k, sendbuf := sb\<rparr>)
            else Ok (0, s\<lparr>kcp := k, sendbuf := sb\<rparr>)) of
        Panic \<Rightarrow> Some Panic
      | Ok (interval, s2) \<Rightarrow>
          Some (Ok ((length b', None),
            s2\<lparr>snmp := (snmp s2)\<lparr>BytesSent := BytesSent (snmp s2) + of_nat (length b')\<rparr>\<rparr>)))"
  by (subst WriteBuffer_loop.simps) (simp add: Let_def assms)

lemma WriteBuffer_loop_open_stuck:
  assumes "WaitSnd (kcp s) < unat (snd_wnd (kcp s)) \<and> WaitSnd (kcp s) < unat (rmt_wnd (kcp s))"
    and "send_loop flag (kcp s) (sendbuf s) b = None \<or> send_loop flag (kcp s) (sendbuf s) b = Some Panic"
  shows "WriteBuffer_loop D flag b s ws = None \<or> WriteBuffer_loop D flag b s ws = Some Panic"
proof -
  have n: "WriteBuffer_loop D flag b s ws = None" if "send_loop flag (kcp s) (sendbuf s) b = None"
    by (subst WriteBuffer_loop.simps) (simp add: Let_def assms(1) that)
  have p: "WriteBuffer_loop D flag b s ws = Some Panic"
    if "send_loop flag (kcp s) (sendbuf s) b = Some Panic"
    by (subst WriteBuffer_loop.simps) (simp add: Let_def assms(1) that)
  from assms(2) show ?thesis
  proof
    assume "send_loop flag (kcp s) (sendbuf s) b = None"
    from n [OF this] show ?thesis by simp
  next
    assume "send_loop flag (kcp s) (sendbuf s) b = Some Panic"
    from p [OF this] show ?thesis by simp
  qed
qed

lemma WriteBuffer_loop_round:
  assumes "WriteBuffer_loop D flag b s ws = Some (Ok (r, s'))"
    and "WaitSnd (kcp s) < unat (snd_wnd (kcp s)) \<and> WaitSnd (kcp s) < unat (rmt_wnd (kcp s))"
  shows "write_frame s s'"
proof (cases "send_loop flag (kcp s) (sendbuf s) b")
  case None
  with assms show ?thesis using WriteBuffer_loop_open_stuck [OF assms(2), of flag b D ws] by simp
next
  case (Some e)
  show ?thesis
  proof (cases e)
    case Panic
    with Some assms show ?thesis
      using WriteBuffer_loop_open_stuck [OF assms(2), of flag b D ws] by simp
  next
    case (Ok t)
    obtain k sb b' where t: "t = (k, sb, b')" by (cases t)
    note eq = WriteBuffer_loop_open [OF assms(2) Some [unfolded Ok t], of D ws]
    let ?s1 = "s\<lparr>kcp := k, sendbuf := sb\<rparr>"
    have 1: "write_frame s ?s1" by (simp add: write_frame_def)
    show ?thesis
    proof (cases "unat (snd_wnd k) \<le> WaitSnd k \<or> unat (rmt_wnd k) \<le> WaitSnd k \<or> \<not> writeDelay s")
      case True
      from assms(1) eq [unfolded if_P [OF True]] obtain iv s2 where fl: "flush D True ?s1 = Ok (iv, s2)"
        and s': "s' = s2\<lparr>snmp := (snmp s2)\<lparr>BytesSent := BytesSent (snmp s2) + of_nat (length b')\<rparr>\<rparr>"
        by (auto split: exec.splits)
      have "write_frame ?s1 s2" using fl by (rule flush_frame)
      moreover have "write_frame s2 s'" unfolding s' by simp
      ultimately show ?thesis using 1 by (blast intro: write_frame_trans)
    next
      case False
      from assms(1) eq [unfolded if_not_P [OF False]] have
        s': "s' = ?s1\<lparr>snmp := (snmp ?s1)\<lparr>BytesSent := BytesSent (snmp ?s1) + of_nat (length b')\<rparr>\<rparr>"
        by auto
      have "write_frame ?s1 s'" by (subst s') simp
      with 1 show ?thesis by (blast intro: write_frame_trans)
    qed
  qed
qed

lemma WriteBuffer_loop_keeps:
  fixes f :: "UDPStream \<Rightarrow> 'a"
  assumes fr: "\<And>x y. write_frame x y \<Longrightarrow> f y = f x"
  shows "WriteBuffer_loop D flag b s ws = Some (Ok (r, s')) \<Longrightarrow>
           \<forall>w \<in> set ws. \<forall>x. f (world w x) = f x \<Longrightarrow> f s' = f s"
    and "WriteBuffer_wait D flag b s timeout ws = Some (Ok (r, s')) \<Longrightarrow>
           \<forall>w \<in> set ws. \<forall>x. f (world w x) = f x \<Longrightarrow> f s' = f s"
proof (induction D flag b s ws and D flag b s timeout ws arbitrary: r s' and r s'
    rule: WriteBuffer_loop_WriteBuffer_wait.induct)
  case (1 D flag b s ws)
  show ?case
  proof (cases "WaitSnd (kcp s) < unat (snd_wnd (kcp s)) \<and> WaitSnd (kcp s) < unat (rmt_wnd (kcp s))")
    case True
    from WriteBuffer_loop_round [OF "1.prems"(1) True] show ?thesis by (rule fr)
  next
    case False
    note eq = WriteBuffer_loop_closed [OF False, of D flag b ws]
    show ?thesis
    proof (cases "wd s \<noteq> 0 \<and> wd s < clock s")
      case True
      from "1.prems"(1) eq [unfolded if_P [OF True]] show ?thesis by simp
    next
      case nt: False
      from "1.prems"(1) eq [unfolded if_not_P [OF nt]] have
        "WriteBuffer_wait D flag b s
             (if wd s \<noteq> 0 then Some (clock s + (wd s - clock s)) else None) ws = Some (Ok (r, s'))"
        by simp
      from "1.IH" [OF refl False nt this "1.prems"(2)] show ?thesis .
    qed
  qed
next
  case (2 D flag b s timeout)
  then show ?case by simp
next
  case (3 D flag b s timeout w ws)
  define s1 where "s1 = world w s"
  have f1: "f s1 = f s" using "3.prems"(2) by (simp add: s1_def)
  have rest: "\<forall>w \<in> set ws. \<forall>x. f (world w x) = f x" using "3.prems"(2) by simp
  let ?rs = "ready [(chClose s1, WClose), (chRst s1, WRst), (chSendFinEvent s1, WFin),
                  (chWriteEvent s1, WEvent), (timer_fired timeout s1, WTimer)]"
  show ?case
  proof (cases ?rs)
    case Nil
    with "3.prems"(1) have "WriteBuffer_wait D flag b s1 timeout ws = Some (Ok (r, s'))"
      by (simp add: s1_def Let_def)
    from "3.IH"(1) [OF s1_def Nil this rest] f1 show ?thesis by simp
  next
    case (Cons x xs)
    show ?thesis
    proof (cases "chosen (choice w) (x # xs)")
      case WEvent
      with Cons "3.prems"(1) have
        "WriteBuffer_loop D flag b (s1\<lparr>chWriteEvent := False\<rparr>) ws = Some (Ok (r, s'))"
        by (simp add: s1_def Let_def)
      from "3.IH"(2) [OF s1_def Cons WEvent this rest]
      have "f s' = f (s1\<lparr>chWriteEvent := False\<rparr>)" .
      also have "\<dots> = f s1" by (rule fr) simp
      finally show ?thesis using f1 by simp
    qed (use Cons "3.prems"(1) f1 in \<open>simp_all add: s1_def Let_def\<close>)
  qed
qed

lemma WriteBuffer_keeps:
  fixes f :: "UDPStream \<Rightarrow> 'a"
  assumes "\<And>x y. write_frame x y \<Longrightarrow> f y = f x"
    and "WriteBuffer D c ws flag b s = Some (Ok (r, s'))"
    and "\<forall>w \<in> set ws. \<forall>x. f (world w x) = f x"
  shows "f s' = f s"
proof (cases "ready [(chClose s, ErrClosedPipe), (chRst s, ErrUnexpectedEOF),
                  (chSendFinEvent s, ErrClosedPipe)]")
  case Nil
  with assms(2) have "WriteBuffer_loop D flag b s ws = Some (Ok (r, s'))"
    by (simp add: WriteBuffer_def)
  from WriteBuffer_loop_keeps(1) [of f, OF assms(1) this assms(3)] show ?thesis .
next
  case (Cons x xs)
  with assms(2) show ?thesis by (simp add: WriteBuffer_def)
qed


subsection \<open>Close and CloseWrite\<close>

lemma chosen_pair: "chosen c [x, y] = x \<or> chosen c [x, y] = y"
proof -
  have 1: "chosen c [x, y] = [x, y] ! (c mod 2)"
    by (simp add: chosen_def numeral_2_eq_2)
  have "c mod 2 = 0 \<or> c mod 2 = 1" by arith
  then show ?thesis unfolding 1 by (elim disjE) simp_all
qed

lemma Once_again:
  "closeOnce s \<Longrightarrow> s\<lparr>closeOnce := True\<rparr> = s"
  "sendFinOnce s \<Longrightarrow> s\<lparr>sendFinOnce := True\<rparr> = s"
  by (cases s; simp)+

lemma WriteBuffer_half_closed:
  assumes "chSendFinEvent s" "\<not> chClose s"
  shows "WriteBuffer D c ws flag b s = Some (Ok ((0, Some ErrClosedPipe), s))
       \<or> (chRst s \<and> WriteBuffer D c ws flag b s = Some (Ok ((0, Some ErrUnexpectedEOF), s)))"
proof (cases "chRst s")
  case False
  with assms show ?thesis by (simp add: WriteBuffer_def ready_def chosen_def)
next
  case True
  with assms chosen_pair [of c ErrUnexpectedEOF ErrClosedPipe] show ?thesis
    by (auto simp: WriteBuffer_def ready_def)
qed

text \<open>
  C10, as the code has it. When the send-FIN signal is closed and \<^verbatim>\<open>Close\<close> is called for
  the first time, the
  \<^verbatim>\<open>WriteFlag(RST, nil)\<close> inside it returns at its first \<^verbatim>\<open>select\<close> with an error and
  without touching the stream, so no RST reaches the engine: the error is closed-pipe,
  unless the stream has also been reset, where the runtime may choose that case and the
  error is unexpected-EOF. \<^verbatim>\<open>Close\<close> returns nil all the same, closes \<^verbatim>\<open>chClose\<close> and arms the
  clean timer for five seconds from now; engine, queues and wire are as they were.
\<close>

theorem Close_after_CloseWrite:
  assumes "chSendFinEvent s" "\<not> closeOnce s" "\<not> chClose s"
  shows "(WriteFlag D c ws RST [] (s\<lparr>closeOnce := True\<rparr>)
            = Some (Ok ((0, Some ErrClosedPipe), s\<lparr>closeOnce := True\<rparr>))
          \<or> (chRst s \<and> WriteFlag D c ws RST [] (s\<lparr>closeOnce := True\<rparr>)
            = Some (Ok ((0, Some ErrUnexpectedEOF), s\<lparr>closeOnce := True\<rparr>))))
    \<and> Close D c ws s =
         Some (Ok (None,
           s\<lparr>closeOnce := True, chClose := True, chClean := Some (clock s + 5 * Second),
             snmp := (snmp s)\<lparr>CurrEstab := CurrEstab (snmp s) - 1\<rparr>\<rparr>))
    \<and> (\<forall>s'. Close D c ws s = Some (Ok (None, s')) \<longrightarrow>
          kcp s' = kcp s \<and> msgss s' = msgss s \<and> wire s' = wire s)"
proof -
  let ?s1 = "s\<lparr>closeOnce := True\<rparr>"
  have h: "chSendFinEvent ?s1" "\<not> chClose ?s1" using assms by simp_all
  note w = WriteBuffer_half_closed [OF h, of D c ws RST "[]"]
  have a: "WriteFlag D c ws RST [] ?s1 = Some (Ok ((0, Some ErrClosedPipe), ?s1))
          \<or> (chRst s \<and> WriteFlag D c ws RST [] ?s1 = Some (Ok ((0, Some ErrUnexpectedEOF), ?s1)))"
    using w by (simp add: WriteFlag_def)
  have b: "Close D c ws s =
         Some (Ok (None,
           s\<lparr>closeOnce := True, chClose := True, chClean := Some (clock s + 5 * Second),
             snmp := (snmp s)\<lparr>CurrEstab := CurrEstab (snmp s) - 1\<rparr>\<rparr>))"
    using a assms by (auto simp: Close_def Let_def CleanTimeout_def mult.commute)
  from a b show ?thesis by simp
qed

theorem Close_after_CloseWrite_witness:
  "chSendFinEvent example_half_closed
   \<and> \<not> closeOnce example_half_closed
   \<and> \<not> chClose example_half_closed
   \<and> CloseWrite example_deps 0 [] example_stream = Some (Ok (None, example_half_closed))
   \<and> WriteFlag example_deps 0 [] RST [] (example_half_closed\<lparr>closeOnce := True\<rparr>)
       = Some (Ok ((0, Some ErrClosedPipe), example_half_closed\<lparr>closeOnce := True\<rparr>))
   \<and> Close example_deps 0 [] example_half_closed =
       Some (Ok (None,
         example_half_closed\<lparr>closeOnce := True, chClose := True, chClean := Some 5000001000,
           snmp := example_snmp\<lparr>CurrEstab := 0\<rparr>\<rparr>))
   \<and> kcp (example_half_closed\<lparr>closeOnce := True, chClose := True, chClean := Some 5000001000,
           snmp := example_snmp\<lparr>CurrEstab := 0\<rparr>\<rparr>) = kcp example_half_closed"
proof -
  have h: "chSendFinEvent example_half_closed"
    "\<not> closeOnce example_half_closed"
    "\<not> chClose example_half_closed"
    and r: "\<not> chRst example_half_closed"
    and v: "clock example_half_closed = 1000"
      "snmp example_half_closed = example_snmp"
    by (simp_all add: example_half_closed_def example_stream_def)
  have e: "example_snmp\<lparr>CurrEstab := CurrEstab example_snmp - 1\<rparr> = example_snmp\<lparr>CurrEstab := 0\<rparr>"
    by (simp add: example_snmp_def)
  note T = Close_after_CloseWrite [OF h, of example_deps 0 "[]"]
  from T r have 1: "WriteFlag example_deps 0 [] RST [] (example_half_closed\<lparr>closeOnce := True\<rparr>)
       = Some (Ok ((0, Some ErrClosedPipe), example_half_closed\<lparr>closeOnce := True\<rparr>))"
    by blast
  from T have 2: "Close example_deps 0 [] example_half_closed =
       Some (Ok (None,
         example_half_closed\<lparr>closeOnce := True, chClose := True, chClean := Some 5000001000,
           snmp := example_snmp\<lparr>CurrEstab := 0\<rparr>\<rparr>))"
    unfolding v e Second_def by simp
  show ?thesis
    using h 1 2 example_CloseWrite by simp
qed

text \<open>
  The claim C10 fails where the half-closed stream has also been reset by the peer: two
  cases of the first \<^verbatim>\<open>select\<close> of \<^verbatim>\<open>WriteBuffer\<close> can proceed, and when the runtime takes
  the first of them the write inside \<^verbatim>\<open>Close\<close> fails with unexpected-EOF, not with
  closed-pipe. \<^verbatim>\<open>Close\<close> returns nil as before.
\<close>

theorem Close_after_CloseWrite_and_reset:
  "reset example_half_closed = Ok example_half_closed_reset
   \<and> chSendFinEvent example_half_closed_reset
   \<and> chRst example_half_closed_reset
   \<and> \<not> closeOnce example_half_closed_reset
   \<and> \<not> chClose example_half_closed_reset
   \<and> WriteFlag example_deps 0 [] RST [] (example_half_closed_reset\<lparr>closeOnce := True\<rparr>)
       = Some (Ok ((0, Some ErrUnexpectedEOF), example_half_closed_reset\<lparr>closeOnce := True\<rparr>))
   \<and> Close example_deps 0 [] example_half_closed_reset =
       Some (Ok (None,
         example_half_closed_reset\<lparr>closeOnce := True, chClose := True,
           chClean := Some 5000001000, snmp := example_snmp\<lparr>CurrEstab := 0\<rparr>\<rparr>))"
  by (simp add: reset_def ReleaseTX_def Close_def WriteFlag_def WriteBuffer_def ready_def
      chosen_def CleanTimeout_def Second_def Let_def example_half_closed_reset_def
      example_half_closed_def example_stream_def example_kcp_def example_snmp_def)

lemma calls_Close_again:
  "closeOnce s \<Longrightarrow>
     calls (Close D) sched s = Some (Ok (replicate (length sched) (Some ErrClosedPipe), s))"
  by (induction sched) (auto simp: Close_def Once_again)

lemma calls_CloseWrite_again:
  "sendFinOnce s \<Longrightarrow>
     calls (CloseWrite D) sched s = Some (Ok (replicate (length sched) None, s))"
  by (induction sched) (auto simp: CloseWrite_def Once_again)

lemma Close_first:
  assumes "\<not> closeOnce s" "Close D c ws s = Some (Ok (r, s1))"
    and "\<forall>w \<in> set ws. \<forall>x. closeOnce (world w x) = closeOnce x"
  shows "r = None \<and> closeOnce s1 \<and> chClose s1 \<and> chClean s1 = Some (clock s1 + CleanTimeout)"
proof -
  let ?s0 = "s\<lparr>closeOnce := True\<rparr>"
  from assms(1,2) obtain q s2 where w: "WriteBuffer D c ws RST [] ?s0 = Some (Ok (q, s2))"
    and r: "r = None" and s1: "s1 = s2\<lparr>chClose := True, chClean := Some (clock s2 + CleanTimeout),
                   snmp := (snmp s2)\<lparr>CurrEstab := CurrEstab (snmp s2) + (- 1)\<rparr>\<rparr>"
    by (auto simp: Close_def WriteFlag_def Let_def split: option.splits exec.splits if_splits)
  have "closeOnce s2 = closeOnce ?s0"
    using write_frame_keeps(1) w assms(3) by (rule WriteBuffer_keeps)
  then show ?thesis by (simp add: r s1)
qed

lemma CloseWrite_first:
  assumes "\<not> sendFinOnce s" "CloseWrite D c ws s = Some (Ok (r, s1))"
    and "\<forall>w \<in> set ws. \<forall>x. sendFinOnce (world w x) = sendFinOnce x"
  shows "r = None \<and> sendFinOnce s1 \<and> chSendFinEvent s1"
proof -
  let ?s0 = "s\<lparr>sendFinOnce := True\<rparr>"
  from assms(1,2) obtain q s2 where w: "WriteBuffer D c ws FIN [] ?s0 = Some (Ok (q, s2))"
    and r: "r = None" and s1: "s1 = s2\<lparr>chSendFinEvent := True\<rparr>"
    by (auto simp: CloseWrite_def WriteFlag_def Let_def split: option.splits exec.splits if_splits)
  have "sendFinOnce s2 = sendFinOnce ?s0"
    using write_frame_keeps(2) w assms(3) by (rule WriteBuffer_keeps)
  then show ?thesis by (simp add: r s1)
qed


subsection \<open>Streams on which a flush does not panic\<close>


lemma resolve_all_length: "resolve_all r xs = Inr as \<Longrightarrow> length as = length xs"
  by (induction xs arbitrary: as) (auto split: sum.splits)

lemma NewUDPStream_wf:
  assumes "NewUDPStream D t0 c0 k0 uu acc rems = Inr s" "length uu = uuid_Size"
  shows "wf_stream s" and "length (sendbuf s) = mtuLimit D" and "accepted s = acc"
    and "\<not> closeOnce s \<and> \<not> chClose s \<and> \<not> sendFinOnce s \<and> \<not> chSendFinEvent s
         \<and> \<not> rstOnce s \<and> \<not> chRst s \<and> \<not> recvSynOnce s"
  using assms
  by (auto simp: NewUDPStream_def wf_stream_def Let_def resolve_all_length
      split: if_splits sum.splits)

lemma wf_stream_frame:
  assumes "write_frame s s'" "wf_stream s" "length (msgss s') \<le> length (tunnels s)"
  shows "wf_stream s'"
  using assms(2,3) write_frame_keeps(7-10) [OF assms(1)] by (simp add: wf_stream_def)

lemma output_msg_wf:
  assumes "wf_stream s" "\<forall>i. length buf \<le> length (xmitBuf_Get D i)" "uuid_Size \<le> length buf"
  shows "\<exists>s'. output_msg D buf xmitMax s = Ok s' \<and> wf_stream s'"
proof -
  from assms obtain s' where o: "output_msg D buf xmitMax s = Ok s'"
    using output_msg_no_panic [of buf D s xmitMax] by (auto simp: wf_stream_def)
  have u: "length (uuid s) = uuid_Size" using assms(1) by (simp add: wf_stream_def)
  have k: "fst (parallelTun xmitMax s) \<le> length (tunnels s)"
    using assms(1) by (auto simp: parallelTun_def wf_stream_def Suc_le_eq)
  have "length (msgss s') \<le> length (tunnels s)"
    using output_msg_Ok(1) [OF o u] k assms(1) by (simp add: wf_stream_def)
  with output_msg_frame [OF o] assms(1) have "wf_stream s'" by (rule wf_stream_frame)
  with o show ?thesis by blast
qed

lemma kcp_outputs_wf:
  assumes "wf_stream s" "\<forall>seg \<in> set segs. \<forall>i. length (fst seg) \<le> length (xmitBuf_Get D i)"
  shows "\<exists>s'. kcp_outputs D segs s = Ok s' \<and> wf_stream s'"
  using assms
proof (induction segs arbitrary: s)
  case Nil
  then show ?case by simp
next
  case (Cons seg segs)
  obtain buf xmitMax where seg: "seg = (buf, xmitMax)" by (cases seg)
  have "\<exists>s1. kcp_output D seg s = Ok s1 \<and> wf_stream s1"
  proof (cases "IKCP_OVERHEAD D + headerSize s \<le> length buf")
    case False
    with Cons.prems(1) show ?thesis by (simp add: kcp_output_def seg)
  next
    case True
    then have "uuid_Size \<le> length buf" using Cons.prems(1) by (simp add: wf_stream_def)
    moreover have "\<forall>i. length buf \<le> length (xmitBuf_Get D i)" using Cons.prems(2) seg by simp
    ultimately show ?thesis
      using output_msg_wf [OF Cons.prems(1), of buf D xmitMax] True by (simp add: kcp_output_def seg)
  qed
  then obtain s1 where 1: "kcp_output D seg s = Ok s1" and w: "wf_stream s1" by blast
  from Cons.IH [OF w] Cons.prems(2) obtain s' where "kcp_outputs D segs s1 = Ok s'" "wf_stream s'"
    by auto
  with 1 show ?case by simp
qed

lemma tunnels_output_no_panic:
  "i + length batches \<le> length (tunnels s) \<Longrightarrow>
     \<exists>s'. tunnels_output i batches s = Ok s' \<and> msgss s' = msgss s"
proof (induction i batches s rule: tunnels_output.induct)
  case (1 i s)
  then show ?case by simp
next
  case (2 i msgs rest s)
  show ?case
  proof (cases "0 < length msgs")
    case False
    with 2 show ?thesis by simp
  next
    case True
    have t: "\<not> length (tunnels s) \<le> i" using "2.prems" by simp
    from "2.IH"(1) [OF True t] "2.prems" True t show ?thesis by simp
  qed
qed

lemma flush_wf:
  assumes "wf_stream s" "flush_fits D"
  shows "\<exists>interval s'. flush D kcpFlush s = Ok (interval, s') \<and> wf_stream s'"
proof -
  have "\<exists>iv s1. (if kcpFlush then
              (case kcp_flush D (clock s) (kcp s) of (k, segs, interval) \<Rightarrow>
                 (case kcp_outputs D segs (s\<lparr>kcp := k\<rparr>) of
                    Panic \<Rightarrow> Panic | Ok s' \<Rightarrow> Ok (interval, s')))
            else Ok (0, s)) = Ok (iv, s1) \<and> wf_stream s1"
  proof (cases kcpFlush)
    case False
    with assms(1) show ?thesis by simp
  next
    case True
    obtain k segs interval where kf: "kcp_flush D (clock s) (kcp s) = (k, segs, interval)"
      by (cases "kcp_flush D (clock s) (kcp s)")
    have fits: "\<forall>seg \<in> set segs. \<forall>i. length (fst seg) \<le> length (xmitBuf_Get D i)"
      using assms(2) kf unfolding flush_fits_def
      by (metis fst_conv snd_conv)
    have "wf_stream (s\<lparr>kcp := k\<rparr>)" using assms(1) by (simp add: wf_stream_def)
    from kcp_outputs_wf [OF this fits] obtain s1
      where "kcp_outputs D segs (s\<lparr>kcp := k\<rparr>) = Ok s1" "wf_stream s1" by blast
    with True kf show ?thesis by simp
  qed
  then obtain iv s1 where 1: "(if kcpFlush then
              (case kcp_flush D (clock s) (kcp s) of (k, segs, interval) \<Rightarrow>
                 (case kcp_outputs D segs (s\<lparr>kcp := k\<rparr>) of
                    Panic \<Rightarrow> Panic | Ok s' \<Rightarrow> Ok (interval, s')))
            else Ok (0, s)) = Ok (iv, s1)" and w1: "wf_stream s1" by blast
  show ?thesis
  proof (cases "length (msgss s1) = 0")
    case True
    have "wf_stream (notifyWriteEvent s1)" using w1 by (simp add: wf_stream_def notifyWriteEvent_def)
    with True 1 w1 show ?thesis unfolding flush_def by (simp add: Let_def)
  next
    case False
    define s3 where "s3 = (if WaitSnd (kcp s1) < unat (snd_wnd (kcp s1))
        \<and> WaitSnd (kcp s1) < unat (rmt_wnd (kcp s1))
        then notifyWriteEvent (s1\<lparr>msgss := []\<rparr>) else s1\<lparr>msgss := []\<rparr>)"
    have t3: "tunnels s3 = tunnels s1" "msgss s3 = []" "uuid s3 = uuid s1"
      "headerSize s3 = headerSize s1" "remotes s3 = remotes s1"
      by (simp_all add: s3_def notifyWriteEvent_def)
    have "0 + length (msgss s1) \<le> length (tunnels s3)" using w1 t3 by (simp add: wf_stream_def)
    from tunnels_output_no_panic [OF this] obtain s' where
      o: "tunnels_output 0 (msgss s1) s3 = Ok s'" and m: "msgss s' = msgss s3" by blast
    have "write_frame s3 s'" using o by (rule tunnels_output_frame)
    moreover have "wf_stream s3" using w1 t3 by (simp add: wf_stream_def)
    ultimately have "wf_stream s'" using m t3 by (intro wf_stream_frame [of s3 s']) simp_all
    with False 1 o show ?thesis unfolding flush_def by (simp add: Let_def s3_def)
  qed
qed

subsection \<open>Calls that return without waiting\<close>


lemma copy_Nil [simp]: "copy dst [] = dst"
  by (simp add: copy_def)

lemma send_loop_empty:
  assumes "0 < unat (mss k)" "sb \<noteq> []"
  shows "send_loop flag k sb [] = Some (Ok (Send [flag] k, sb[0 := flag], []))"
proof -
  from assms(2) obtain x xs where sb: "sb = x # xs" by (cases sb) auto
  show ?thesis
    using assms(1) by (subst send_loop.simps) (simp add: sb Let_def)
qed

lemma WriteBuffer_empty_returns:
  assumes "wf_stream s" "flush_fits D" "sendbuf s \<noteq> []"
    and "WaitSnd (kcp s) < unat (snd_wnd (kcp s)) \<and> WaitSnd (kcp s) < unat (rmt_wnd (kcp s))"
    and "0 < unat (mss (kcp s))"
  shows "\<exists>e s'. WriteBuffer D c ws flag [] s = Some (Ok ((0, e), s')) \<and> write_frame s s'"
proof (cases "ready [(chClose s, ErrClosedPipe), (chRst s, ErrUnexpectedEOF),
                  (chSendFinEvent s, ErrClosedPipe)]")
  case (Cons x xs)
  then show ?thesis by (simp add: WriteBuffer_def)
next
  case Nil
  let ?k = "Send [flag] (kcp s)"
  let ?s1 = "s\<lparr>kcp := ?k, sendbuf := (sendbuf s)[0 := flag]\<rparr>"
  note sl = send_loop_empty [OF assms(5,3), of flag]
  note eq = WriteBuffer_loop_open [OF assms(4) sl, of D ws]
  have w1: "wf_stream ?s1" using assms(1) by (simp add: wf_stream_def)
  have "\<exists>iv s2. (if unat (snd_wnd ?k) \<le> WaitSnd ?k \<or> unat (rmt_wnd ?k) \<le> WaitSnd ?k \<or> \<not> writeDelay s
            then flush D True ?s1 else Ok (0, ?s1)) = Ok (iv, s2)"
    using flush_wf [OF w1 assms(2), of True] by auto
  then obtain iv s2 where fl: "(if unat (snd_wnd ?k) \<le> WaitSnd ?k \<or> unat (rmt_wnd ?k) \<le> WaitSnd ?k
            \<or> \<not> writeDelay s then flush D True ?s1 else Ok (0, ?s1)) = Ok (iv, s2)" by blast
  have l: "WriteBuffer_loop D flag [] s ws =
      Some (Ok ((0, None), s2\<lparr>snmp := (snmp s2)\<lparr>BytesSent := BytesSent (snmp s2) + of_nat 0\<rparr>\<rparr>))"
    unfolding eq fl by simp
  from WriteBuffer_loop_round [OF l assms(4)] l Nil show ?thesis
    by (simp add: WriteBuffer_def)
qed

lemma Close_returns:
  assumes "wf_stream s" "flush_fits D" "sendbuf s \<noteq> []"
    and "WaitSnd (kcp s) < unat (snd_wnd (kcp s)) \<and> WaitSnd (kcp s) < unat (rmt_wnd (kcp s))"
    and "0 < unat (mss (kcp s))"
    and "\<not> closeOnce s" "\<not> chClose s"
  shows "\<exists>s1. Close D c ws s = Some (Ok (None, s1))"
proof -
  let ?s0 = "s\<lparr>closeOnce := True\<rparr>"
  have "wf_stream ?s0" "sendbuf ?s0 \<noteq> []"
    "WaitSnd (kcp ?s0) < unat (snd_wnd (kcp ?s0)) \<and> WaitSnd (kcp ?s0) < unat (rmt_wnd (kcp ?s0))"
    "0 < unat (mss (kcp ?s0))"
    using assms(1,3,4,5) by (simp_all add: wf_stream_def)
  from WriteBuffer_empty_returns [OF this(1) assms(2) this(2,3,4), of c ws RST]
  obtain e s2 where w: "WriteBuffer D c ws RST [] ?s0 = Some (Ok ((0, e), s2))"
    and f: "write_frame ?s0 s2" by blast
  have "\<not> chClose s2" using write_frame_keeps(3) [OF f] assms(7) by simp
  with w assms(6) show ?thesis by (simp add: Close_def WriteFlag_def Let_def)
qed

lemma CloseWrite_returns:
  assumes "wf_stream s" "flush_fits D" "sendbuf s \<noteq> []"
    and "WaitSnd (kcp s) < unat (snd_wnd (kcp s)) \<and> WaitSnd (kcp s) < unat (rmt_wnd (kcp s))"
    and "0 < unat (mss (kcp s))"
    and "\<not> sendFinOnce s" "\<not> chSendFinEvent s"
  shows "\<exists>s1. CloseWrite D c ws s = Some (Ok (None, s1))"
proof -
  let ?s0 = "s\<lparr>sendFinOnce := True\<rparr>"
  have "wf_stream ?s0" "sendbuf ?s0 \<noteq> []"
    "WaitSnd (kcp ?s0) < unat (snd_wnd (kcp ?s0)) \<and> WaitSnd (kcp ?s0) < unat (rmt_wnd (kcp ?s0))"
    "0 < unat (mss (kcp ?s0))"
    using assms(1,3,4,5) by (simp_all add: wf_stream_def)
  from WriteBuffer_empty_returns [OF this(1) assms(2) this(2,3,4), of c ws FIN]
  obtain e s2 where w: "WriteBuffer D c ws FIN [] ?s0 = Some (Ok ((0, e), s2))"
    and f: "write_frame ?s0 s2" by blast
  have "\<not> chSendFinEvent s2" using write_frame_keeps(4) [OF f] assms(7) by simp
  with w assms(6) show ?thesis by (simp add: CloseWrite_def WriteFlag_def Let_def)
qed

subsection \<open>The fragments of a write\<close>


lemma framed:
  assumes "length d < length sb"
  shows "take (Suc (length d)) (take 1 (sb[0 := flag]) @ copy (drop 1 (sb[0 := flag])) d) = flag # d"
    and "length (take 1 (sb[0 := flag]) @ copy (drop 1 (sb[0 := flag])) d) = length sb"
proof -
  from assms obtain x xs where sb: "sb = x # xs" by (cases sb) auto
  with assms have "length d \<le> length xs" by simp
  then show "take (Suc (length d)) (take 1 (sb[0 := flag]) @ copy (drop 1 (sb[0 := flag])) d) = flag # d"
    and "length (take 1 (sb[0 := flag]) @ copy (drop 1 (sb[0 := flag])) d) = length sb"
    by (simp_all add: sb copy_def)
qed

lemma send_loop_returns:
  assumes "2 \<le> unat (mss k)" "unat (mss k) \<le> length sb"
  shows "\<exists>sb' b' segs. send_loop flag k sb b =
           Some (Ok (k\<lparr>snd_queue := snd_queue k @ map ((#) flag) segs\<rparr>, sb', b'))
         \<and> concat segs = b \<and> segs \<noteq> [] \<and> last segs = b'
         \<and> length b' < unat (mss k) \<and> length sb' = length sb"
  using assms
proof (induction "length b" arbitrary: b k sb rule: less_induct)
  case less
  let ?m = "unat (mss k)"
  have m1: "unat (mss k - 1) = ?m - 1"
    using less.prems(1) by (intro unat_minus_one) auto
  show ?case
  proof (cases "length b < ?m")
    case True
    then have lb: "length b < length sb" using less.prems(2) by simp
    let ?sb' = "take 1 (sb[0 := flag]) @ copy (drop 1 (sb[0 := flag])) b"
    have "send_loop flag k sb b = Some (Ok (Send (flag # b) k, ?sb', b))"
      using True lb framed(1) [OF lb, of flag]
      by (subst send_loop.simps) (simp add: Let_def)
    then have "send_loop flag k sb b =
           Some (Ok (k\<lparr>snd_queue := snd_queue k @ map ((#) flag) [b]\<rparr>, ?sb', b))"
      by (simp add: Send_def)
    moreover have "concat [b] = b \<and> [b] \<noteq> [] \<and> last [b] = b" by simp
    ultimately show ?thesis using True framed(2) [OF lb, of flag] by blast
  next
    case False
    let ?d = "take (?m - 1) b"
    let ?b1 = "drop (?m - 1) b"
    let ?sb1 = "take 1 (sb[0 := flag]) @ copy (drop 1 (sb[0 := flag])) ?d"
    let ?k1 = "Send (flag # ?d) k"
    have ld: "length ?d = ?m - 1" using False by simp
    then have ld': "length ?d < length sb" "Suc (length ?d) = ?m"
      using less.prems by simp_all
    have tk: "take ?m ?sb1 = flag # ?d"
      using framed(1) [OF ld'(1), of flag] ld'(2) by simp
    have np: "\<not> (length sb = 0 \<or> length b < unat (mss k) - 1 \<or> length sb < unat (mss k))"
      using False less.prems by auto
    have step: "send_loop flag k sb b = send_loop flag ?k1 ?sb1 ?b1"
      by (subst send_loop.simps)
        (simp only: if_not_P [OF False] if_not_P [OF np] Let_def m1 tk)
    have "length ?b1 < length b" using False less.prems(1) by simp
    moreover have "2 \<le> unat (mss ?k1)" "unat (mss ?k1) \<le> length ?sb1"
      using less.prems framed(2) [OF ld'(1), of flag] by (simp_all add: Send_def)
    ultimately obtain sb' b' segs where
      r: "send_loop flag ?k1 ?sb1 ?b1 =
           Some (Ok (?k1\<lparr>snd_queue := snd_queue ?k1 @ map ((#) flag) segs\<rparr>, sb', b'))"
      and c: "concat segs = ?b1" "segs \<noteq> []" "last segs = b'"
        "length b' < unat (mss ?k1)" "length sb' = length ?sb1"
      using less.hyps [of ?b1 ?k1 ?sb1] by blast
    have "?k1\<lparr>snd_queue := snd_queue ?k1 @ map ((#) flag) segs\<rparr> =
        k\<lparr>snd_queue := snd_queue k @ map ((#) flag) (?d # segs)\<rparr>"
      by (simp add: Send_def)
    with step r have "send_loop flag k sb b =
           Some (Ok (k\<lparr>snd_queue := snd_queue k @ map ((#) flag) (?d # segs)\<rparr>, sb', b'))"
      by simp
    moreover have "concat (?d # segs) = b" "?d # segs \<noteq> []" "last (?d # segs) = b'"
      using c by simp_all
    moreover have "length b' < ?m" "length sb' = length sb"
      using c framed(2) [OF ld'(1), of flag] by (simp_all add: Send_def)
    ultimately show ?thesis by blast
  qed
qed

text \<open>
  What \<^verbatim>\<open>Write\<close> returns in general: with \<open>2 \<le> mss\<close> and the send window open it
  returns, without an error, the length of the last fragment, which is less than \<open>mss\<close>,
  and so less than the length of \<open>b\<close> whenever \<open>b\<close> has \<open>mss\<close> bytes or more, although all
  of \<open>b\<close> has been handed to the engine.
\<close>

lemma Write_returns_last_fragment:
  assumes "wf_stream s" "flush_fits D"
    and "\<not> chClose s" "\<not> chRst s" "\<not> chSendFinEvent s"
    and "WaitSnd (kcp s) < unat (snd_wnd (kcp s)) \<and> WaitSnd (kcp s) < unat (rmt_wnd (kcp s))"
    and "2 \<le> unat (mss (kcp s))" "unat (mss (kcp s)) \<le> length (sendbuf s)"
  shows "\<exists>n s'. Write D c ws b s = Some (Ok ((n, None), s'))
           \<and> n < unat (mss (kcp s)) \<and> (unat (mss (kcp s)) \<le> length b \<longrightarrow> n < length b)"
proof -
  from send_loop_returns [OF assms(7,8), of PSH b] obtain sb' b' segs where
    sl: "send_loop PSH (kcp s) (sendbuf s) b =
           Some (Ok ((kcp s)\<lparr>snd_queue := snd_queue (kcp s) @ map ((#) PSH) segs\<rparr>, sb', b'))"
    and c: "concat segs = b" "segs \<noteq> []" "last segs = b'" "length b' < unat (mss (kcp s))"
    by blast
  let ?k = "(kcp s)\<lparr>snd_queue := snd_queue (kcp s) @ map ((#) PSH) segs\<rparr>"
  let ?s1 = "s\<lparr>kcp := ?k, sendbuf := sb'\<rparr>"
  note eq = WriteBuffer_loop_open [OF assms(6) sl, of D ws]
  have w1: "wf_stream ?s1" using assms(1) by (simp add: wf_stream_def)
  have "\<exists>iv s2. (if unat (snd_wnd ?k) \<le> WaitSnd ?k \<or> unat (rmt_wnd ?k) \<le> WaitSnd ?k \<or> \<not> writeDelay s
            then flush D True ?s1 else Ok (0, ?s1)) = Ok (iv, s2)"
    using flush_wf [OF w1 assms(2), of True] by auto
  then obtain iv s2 where fl: "(if unat (snd_wnd ?k) \<le> WaitSnd ?k \<or> unat (rmt_wnd ?k) \<le> WaitSnd ?k
            \<or> \<not> writeDelay s then flush D True ?s1 else Ok (0, ?s1)) = Ok (iv, s2)" by blast
  have l: "WriteBuffer_loop D PSH b s ws =
      Some (Ok ((length b', None),
        s2\<lparr>snmp := (snmp s2)\<lparr>BytesSent := BytesSent (snmp s2) + of_nat (length b')\<rparr>\<rparr>))"
    unfolding eq fl by simp
  have "unat (mss (kcp s)) \<le> length b \<longrightarrow> length b' < length b"
    using c(4) by simp
  with l c(4) assms(3,4,5) show ?thesis
    by (simp add: Write_def WriteBuffer_def ready_def)
qed

text \<open>
  The writer that waits, in general: when the only case that can proceed after a wakeup is
  the closed send-FIN signal, \<^verbatim>\<open>Write\<close> returns \<^verbatim>\<open>io.EOF\<close>.
\<close>

lemma Write_half_closed_waiting:
  assumes "\<not> chClose s" "\<not> chRst s" "\<not> chSendFinEvent s"
    and "\<not> (WaitSnd (kcp s) < unat (snd_wnd (kcp s)) \<and> WaitSnd (kcp s) < unat (rmt_wnd (kcp s)))"
    and "wd s = 0"
    and "chSendFinEvent (world w s)" "\<not> chClose (world w s)" "\<not> chRst (world w s)"
      "\<not> chWriteEvent (world w s)"
  shows "Write D c (w # ws) b s = Some (Ok ((0, Some EOF), world w s))"
proof -
  have "WriteBuffer_loop D PSH b s (w # ws) = WriteBuffer_wait D PSH b s None (w # ws)"
    using WriteBuffer_loop_closed [OF assms(4), of D PSH b "w # ws"] assms(5) by simp
  also have "\<dots> = Some (Ok ((0, Some EOF), world w s))"
    using assms(6-9) by (simp add: ready_def chosen_def timer_fired_def Let_def)
  finally show ?thesis
    using assms(1-3) by (simp add: Write_def WriteBuffer_def ready_def)
qed

subsection \<open>Closing again\<close>

text \<open>
  C4. A first \<^verbatim>\<open>Close\<close> that returns, returns nil, and with it the stream is closed and the
  clean timer armed; whatever calls of \<^verbatim>\<open>Close\<close> follow, each returns at once with
  closed-pipe and the stream stays as the first call left it. A first \<^verbatim>\<open>CloseWrite\<close> that
  returns, returns nil, and every later one returns nil and changes nothing. The other
  goroutines that run while the first call waits are taken not to touch its Once. On a
  well-formed stream whose send window is open the first call does not wait: it returns,
  and returns nil.
\<close>

theorem Close_CloseWrite_idempotent:
  "(\<not> closeOnce s \<and> Close D c ws s = Some (Ok (r, s1))
      \<and> (\<forall>w \<in> set ws. \<forall>x. closeOnce (world w x) = closeOnce x)
     \<longrightarrow> r = None \<and> chClose s1 \<and> chClean s1 = Some (clock s1 + CleanTimeout)
         \<and> calls (Close D) ((c, ws) # later) s
             = Some (Ok (None # replicate (length later) (Some ErrClosedPipe), s1)))
   \<and> (\<not> sendFinOnce s \<and> CloseWrite D c ws s = Some (Ok (r, s1))
      \<and> (\<forall>w \<in> set ws. \<forall>x. sendFinOnce (world w x) = sendFinOnce x)
     \<longrightarrow> r = None \<and> chSendFinEvent s1
         \<and> calls (CloseWrite D) ((c, ws) # later) s
             = Some (Ok (None # replicate (length later) None, s1)))
   \<and> (closeOnce s \<longrightarrow>
        calls (Close D) later s = Some (Ok (replicate (length later) (Some ErrClosedPipe), s)))
   \<and> (sendFinOnce s \<longrightarrow>
        calls (CloseWrite D) later s = Some (Ok (replicate (length later) None, s)))
   \<and> (wf_stream s \<and> flush_fits D \<and> sendbuf s \<noteq> [] \<and> 0 < unat (mss (kcp s))
       \<and> WaitSnd (kcp s) < unat (snd_wnd (kcp s)) \<and> WaitSnd (kcp s) < unat (rmt_wnd (kcp s))
     \<longrightarrow> (\<not> closeOnce s \<and> \<not> chClose s \<longrightarrow> (\<exists>s'. Close D c ws s = Some (Ok (None, s'))))
         \<and> (\<not> sendFinOnce s \<and> \<not> chSendFinEvent s \<longrightarrow>
               (\<exists>s'. CloseWrite D c ws s = Some (Ok (None, s')))))"
proof (intro conjI impI)
  assume a: "\<not> closeOnce s \<and> Close D c ws s = Some (Ok (r, s1))
      \<and> (\<forall>w \<in> set ws. \<forall>x. closeOnce (world w x) = closeOnce x)"
  then have f: "r = None \<and> closeOnce s1 \<and> chClose s1 \<and> chClean s1 = Some (clock s1 + CleanTimeout)"
    using Close_first [of s D c ws r s1] by blast
  then show "r = None" "chClose s1" "chClean s1 = Some (clock s1 + CleanTimeout)" by simp_all
  from f have "calls (Close D) later s1 = Some (Ok (replicate (length later) (Some ErrClosedPipe), s1))"
    by (simp add: calls_Close_again)
  with a f show "calls (Close D) ((c, ws) # later) s
             = Some (Ok (None # replicate (length later) (Some ErrClosedPipe), s1))"
    by simp
next
  assume a: "\<not> sendFinOnce s \<and> CloseWrite D c ws s = Some (Ok (r, s1))
      \<and> (\<forall>w \<in> set ws. \<forall>x. sendFinOnce (world w x) = sendFinOnce x)"
  then have f: "r = None \<and> sendFinOnce s1 \<and> chSendFinEvent s1"
    using CloseWrite_first [of s D c ws r s1] by blast
  then show "r = None" "chSendFinEvent s1" by simp_all
  from f have "calls (CloseWrite D) later s1 = Some (Ok (replicate (length later) None, s1))"
    by (simp add: calls_CloseWrite_again)
  with a f show "calls (CloseWrite D) ((c, ws) # later) s
             = Some (Ok (None # replicate (length later) None, s1))"
    by simp
next
  assume "closeOnce s"
  then show "calls (Close D) later s = Some (Ok (replicate (length later) (Some ErrClosedPipe), s))"
    by (rule calls_Close_again)
next
  assume "sendFinOnce s"
  then show "calls (CloseWrite D) later s = Some (Ok (replicate (length later) None, s))"
    by (rule calls_CloseWrite_again)
next
  assume w: "wf_stream s \<and> flush_fits D \<and> sendbuf s \<noteq> [] \<and> 0 < unat (mss (kcp s))
       \<and> WaitSnd (kcp s) < unat (snd_wnd (kcp s)) \<and> WaitSnd (kcp s) < unat (rmt_wnd (kcp s))"
    and o: "\<not> closeOnce s \<and> \<not> chClose s"
  from w o show "\<exists>s'. Close D c ws s = Some (Ok (None, s'))"
    by (intro Close_returns) simp_all
next
  assume w: "wf_stream s \<and> flush_fits D \<and> sendbuf s \<noteq> [] \<and> 0 < unat (mss (kcp s))
       \<and> WaitSnd (kcp s) < unat (snd_wnd (kcp s)) \<and> WaitSnd (kcp s) < unat (rmt_wnd (kcp s))"
    and o: "\<not> sendFinOnce s \<and> \<not> chSendFinEvent s"
  from w o show "\<exists>s'. CloseWrite D c ws s = Some (Ok (None, s'))"
    by (intro CloseWrite_returns) simp_all
qed

theorem Close_CloseWrite_idempotent_witness:
  "\<not> closeOnce example_stream
   \<and> Close example_deps 0 [] example_stream = Some (Ok (None, example_closed))
   \<and> calls (Close example_deps) [(0, []), (0, []), (1, [])] example_stream
       = Some (Ok ([None, Some ErrClosedPipe, Some ErrClosedPipe], example_closed))
   \<and> \<not> sendFinOnce example_stream
   \<and> CloseWrite example_deps 0 [] example_stream = Some (Ok (None, example_half_closed))
   \<and> calls (CloseWrite example_deps) [(0, []), (0, []), (1, [])] example_stream
       = Some (Ok ([None, None, None], example_half_closed))"
proof -
  have h: "\<not> closeOnce example_stream" "\<not> sendFinOnce example_stream"
    by (simp_all add: example_stream_def)
  have e: "\<forall>w \<in> set ([] :: wakeup list). \<forall>x. closeOnce (world w x) = closeOnce x"
    "\<forall>w \<in> set ([] :: wakeup list). \<forall>x. sendFinOnce (world w x) = sendFinOnce x"
    by simp_all
  show ?thesis
    using Close_CloseWrite_idempotent [of example_stream example_deps 0 "[]" None example_closed
        "[(0, []), (1, [])]"]
      Close_CloseWrite_idempotent [of example_stream example_deps 0 "[]" None example_half_closed
        "[(0, []), (1, [])]"]
      h e example_Close example_CloseWrite
    by (simp add: numeral_2_eq_2)
qed

end
